theory Spec2Isabelle
  imports Main
begin

section \<open>Booking listing: the \<open>get\<close> handler of the bookings router\<close>

text \<open>
  The development follows the handler file of the repository (the module that exports
  \<open>getHandler\<close>): the status filters and orderings of \<open>getHandler\<close>, the module-level
  set and \<open>getUniqueBookings\<close>, and \<open>getBookings\<close> with its seven parallel store
  queries, the recurring-series summary, the enrichment query and the attendee redaction.
\<close>

subsection \<open>Deduplication: the module-level set and \<open>getUniqueBookings\<close>\<close>

text \<open>
  \<^verbatim>\<open>
  const set = new Set();
  const getUniqueBookings = <T extends { uid: string }>(arr: T[]) => {
    const unique = arr.filter((booking) => {
      const duplicate = set.has(booking.uid);
      set.add(booking.uid);
      return !duplicate;
    });
    set.clear();
    return unique;
  };
  \<close>
  The set lives at module level, so it is threaded through explicitly: every function takes
  the set as it is on entry and returns it as it is on exit. The element type is any
  type with a \<open>uid\<close> field; reading the field is the parameter \<open>uid_of\<close>.
\<close>

text \<open>The callback of \<open>arr.filter\<close>: it returns the verdict and the set after \<open>set.add\<close>.\<close>

definition unique_callback :: "('a \<Rightarrow> string) \<Rightarrow> 'a \<Rightarrow> string set \<Rightarrow> bool \<times> string set" where
  "unique_callback uid_of booking s =
     (let duplicate = (uid_of booking \<in> s);
          s' = insert (uid_of booking) s
      in (\<not> duplicate, s'))"

text \<open>\<open>Array.prototype.filter\<close> with a callback that changes the set: left to right.\<close>

fun filter_with_set :: "('a \<Rightarrow> string) \<Rightarrow> 'a list \<Rightarrow> string set \<Rightarrow> 'a list \<times> string set" where
  "filter_with_set uid_of [] s = ([], s)"
| "filter_with_set uid_of (booking # rest) s =
     (case unique_callback uid_of booking s of
        (keep, s') \<Rightarrow>
          (case filter_with_set uid_of rest s' of
             (kept, s'') \<Rightarrow> (if keep then booking # kept else kept, s'')))"

definition getUniqueBookings :: "('a \<Rightarrow> string) \<Rightarrow> 'a list \<Rightarrow> string set \<Rightarrow> 'a list \<times> string set" where
  "getUniqueBookings uid_of arr s =
     (case filter_with_set uid_of arr s of
        (unique, s') \<Rightarrow> (unique, {}))"

text \<open>The set as the module creates it: \<open>new Set()\<close>.\<close>

definition initial_set :: "string set" where
  "initial_set = {}"

text \<open>
  A sequence of calls, one after the other (no call starts before the previous one has
  returned). The trace records, for every call, the set on entry, the returned list and
  the set on exit.
\<close>

fun sequential_calls ::
  "('a \<Rightarrow> string) \<Rightarrow> 'a list list \<Rightarrow> string set \<Rightarrow> (string set \<times> 'a list \<times> string set) list" where
  "sequential_calls uid_of [] s = []"
| "sequential_calls uid_of (arr # arrs) s =
     (case getUniqueBookings uid_of arr s of
        (unique, s') \<Rightarrow> (s, unique, s') # sequential_calls uid_of arrs s')"

text \<open>
  The specification's wording of the deduplication, independent of the code: the entries
  of the list whose uid has not occurred at an earlier position.
\<close>

definition first_occurrences :: "('a \<Rightarrow> string) \<Rightarrow> 'a list \<Rightarrow> 'a list" where
  "first_occurrences uid_of arr =
     map (\<lambda>i. arr ! i)
       (filter (\<lambda>i. uid_of (arr ! i) \<notin> uid_of ` set (take i arr)) [0..<length arr])"

subsection \<open>The data model of the store\<close>

text \<open>
  Dates are milliseconds since the epoch, identifiers are integers, nullable columns are
  options. The schema of the store is not part of the handler; every record keeps the
  columns and relations that the handler's queries and projection name.
\<close>

type_synonym date = int

text \<open>
  Modelled from the spec: the enumeration \<open>BookingStatus\<close> is imported from the generated
  enums of the schema; it has the five members the specification lists, which are also
  the five keys of the object literal in \<open>recurringInfo\<close>.
\<close>

datatype BookingStatus = ACCEPTED | CANCELLED | REJECTED | PENDING | AWAITING_HOST

text \<open>The roles of a membership; the handler names \<open>ADMIN\<close> and \<open>OWNER\<close>.\<close>

datatype MembershipRole = MEMBER | ADMIN | OWNER

datatype SortOrder = asc | desc

datatype json =
    JNull
  | JBool bool
  | JNumber int
  | JString string
  | JArray "json list"
  | JObject "(string \<times> json) list"

record Attendee =
  attendee_id :: int
  attendee_email :: string
  attendee_name :: string

record BookingSeat =
  referenceUid :: string
  seat_attendee :: Attendee

record Payment =
  paymentOption :: string
  amount :: int
  payment_currency :: string
  success :: bool

record BookingReference =
  reference_type :: string
  reference_uid :: string

record Booking =
  booking_id :: int
  uid :: string
  title :: string
  userId :: "int option"
  eventTypeId :: "int option"
  startTime :: date
  endTime :: date
  status :: BookingStatus
  recurringEventId :: "string option"
  location :: "string option"
  paid :: bool
  rescheduled :: "bool option"
  isRecorded :: bool
  attendees :: "Attendee list"
  seatsReferences :: "BookingSeat list"
  payment :: "Payment list"
  references :: "BookingReference list"

record EventType =
  eventType_id :: int
  slug :: string
  eventName :: "string option"
  price :: int
  currency :: string
  recurringEvent :: json
  metadata :: json
  seatsShowAttendees :: "bool option"
  seatsShowAvailabilityCount :: "bool option"
  teamId :: "int option"
  parentId :: "int option"

record Team =
  team_id :: int
  team_name :: string
  team_parentId :: "int option"

record Membership =
  membership_teamId :: int
  membership_userId :: int
  membership_role :: MembershipRole

record User =
  user_id :: int
  user_name :: "string option"
  user_email :: string

record Host =
  host_userId :: int
  host_eventTypeId :: int

text \<open>
  What can go wrong in the handler: a query of the store client rejects, the schema
  validation of an event type's metadata throws, or a property read hits \<open>undefined\<close>.
\<close>

datatype HandlerError = PrismaError string | ZodError string | TypeError string

text \<open>
  The queries the handler sends, in the order of the source: the five visibility queries
  and the two aggregate queries of the \<open>Promise.all\<close>, then the enrichment query.
\<close>

datatype Query =
    bookingsQueryUserId
  | bookingsQueryAttendees
  | bookingsQueryTeamEvents
  | bookingsQueryTeamUsersPersonalEvents
  | bookingsQuerySeatReference
  | recurringInfoBasic
  | recurringInfoExtended
  | enrichmentQuery

text \<open>
  The store client: the tables, and for every query whether the store rejects it
  (connectivity, timeout) and with which error. \<open>eventType_users\<close> is the many-to-many
  relation between event types and users, as pairs (event type id, user id).
\<close>

record PrismaClient =
  booking_table :: "Booking list"
  eventType_table :: "EventType list"
  team_table :: "Team list"
  membership_table :: "Membership list"
  user_table :: "User list"
  host_table :: "Host list"
  eventType_users :: "(int \<times> int) list"
  rejects :: "Query \<Rightarrow> HandlerError option"

subsection \<open>Where-inputs of the store client\<close>

text \<open>
  A where-input is an object literal: a list of its keys, all of which must hold. The
  constructors are the keys and filter shapes the handler writes. \<open>not_null\<close> is
  \<open>{ not: null }\<close>, \<open>equals_null\<close> is \<open>{ equals: null }\<close> and \<open>not_equals_null\<close> is
  \<open>{ not: { equals: null } }\<close>; \<open>int_null\<close> is the literal \<open>null\<close> as a filter.
\<close>

datatype DateTimeFilter = gte date | lte date

datatype StringNullableFilter = equals_null | not_null | not_equals_null

datatype StatusFilter = status_equals BookingStatus | status_notIn "BookingStatus list"

datatype IntFilter = int_equals int | int_in "int list" | int_gt int | int_null

datatype TeamWhere =
    Team_id IntFilter
  | Team_parentId IntFilter
  | Team_parent "TeamWhere list"
  | Team_members_some "MembershipWhere list"
and MembershipWhere =
    Membership_userId IntFilter
  | Membership_role_in "MembershipRole list"
  | Membership_team "TeamWhere list"

datatype UserWhere =
    User_id IntFilter
  | User_teams_some "MembershipWhere list"

datatype HostWhere = Host_userId IntFilter

datatype EventTypeWhere =
    EventType_teamId IntFilter
  | EventType_parentId IntFilter
  | EventType_team "TeamWhere list"
  | EventType_parent "EventTypeWhere list"
  | EventType_hosts_some "HostWhere list"
  | EventType_users_some "UserWhere list"

datatype AttendeeWhere = Attendee_email string

datatype BookingSeatWhere = BookingSeat_attendee "AttendeeWhere list"

datatype BookingWhere =
    Booking_id IntFilter
  | Booking_userId IntFilter
  | Booking_eventTypeId IntFilter
  | Booking_endTime DateTimeFilter
  | Booking_status StatusFilter
  | Booking_recurringEventId StringNullableFilter
  | Booking_eventType "EventTypeWhere list"
  | Booking_user "UserWhere list"
  | Booking_attendees_some "AttendeeWhere list"
  | Booking_seatsReferences_some "BookingSeatWhere list"
  | Booking_AND "BookingWhere list list"
  | Booking_OR "BookingWhere list list"
  | Booking_NOT "BookingWhere list"

type_synonym BookingWhereInput = "BookingWhere list"

datatype BookingOrderBy = orderBy_startTime SortOrder

subsection \<open>How the store evaluates a where-input\<close>

text \<open>
  A comparison with a null column is not true, so the row is not selected. \<open>NOT\<close> is only
  ever wrapped by the handler around tests of a column against \<open>null\<close> or of the status
  column, which is never null, so two truth values are enough. A filter on a to-one
  relation holds only when the related row exists.
\<close>

fun eval_IntFilter :: "IntFilter \<Rightarrow> int option \<Rightarrow> bool" where
  "eval_IntFilter (int_equals v) x = (x = Some v)"
| "eval_IntFilter (int_in vs) x = (case x of None \<Rightarrow> False | Some y \<Rightarrow> y \<in> set vs)"
| "eval_IntFilter (int_gt v) x = (case x of None \<Rightarrow> False | Some y \<Rightarrow> v < y)"
| "eval_IntFilter int_null x = (x = None)"

fun eval_DateTimeFilter :: "DateTimeFilter \<Rightarrow> date \<Rightarrow> bool" where
  "eval_DateTimeFilter (gte d) x = (d \<le> x)"
| "eval_DateTimeFilter (lte d) x = (x \<le> d)"

fun eval_StringNullableFilter :: "StringNullableFilter \<Rightarrow> string option \<Rightarrow> bool" where
  "eval_StringNullableFilter equals_null x = (x = None)"
| "eval_StringNullableFilter not_null x = (x \<noteq> None)"
| "eval_StringNullableFilter not_equals_null x = (x \<noteq> None)"

fun eval_StatusFilter :: "StatusFilter \<Rightarrow> BookingStatus \<Rightarrow> bool" where
  "eval_StatusFilter (status_equals v) x = (x = v)"
| "eval_StatusFilter (status_notIn vs) x = (x \<notin> set vs)"

fun eval_TeamWhere :: "PrismaClient \<Rightarrow> Team \<Rightarrow> TeamWhere \<Rightarrow> bool"
  and eval_MembershipWhere :: "PrismaClient \<Rightarrow> Membership \<Rightarrow> MembershipWhere \<Rightarrow> bool" where
  "eval_TeamWhere p t (Team_id f) = eval_IntFilter f (Some (team_id t))"
| "eval_TeamWhere p t (Team_parentId f) = eval_IntFilter f (team_parentId t)"
| "eval_TeamWhere p t (Team_parent w) =
     (case team_parentId t of
        None \<Rightarrow> False
      | Some i \<Rightarrow>
          (case find (\<lambda>t'. team_id t' = i) (team_table p) of
             None \<Rightarrow> False
           | Some t' \<Rightarrow> list_all (eval_TeamWhere p t') w))"
| "eval_TeamWhere p t (Team_members_some w) =
     list_ex (\<lambda>m. list_all (eval_MembershipWhere p m) w)
       (filter (\<lambda>m. membership_teamId m = team_id t) (membership_table p))"
| "eval_MembershipWhere p m (Membership_userId f) = eval_IntFilter f (Some (membership_userId m))"
| "eval_MembershipWhere p m (Membership_role_in rs) = (membership_role m \<in> set rs)"
| "eval_MembershipWhere p m (Membership_team w) =
     (case find (\<lambda>t. team_id t = membership_teamId m) (team_table p) of
        None \<Rightarrow> False
      | Some t \<Rightarrow> list_all (eval_TeamWhere p t) w)"

fun eval_UserWhere :: "PrismaClient \<Rightarrow> User \<Rightarrow> UserWhere \<Rightarrow> bool" where
  "eval_UserWhere p u (User_id f) = eval_IntFilter f (Some (user_id u))"
| "eval_UserWhere p u (User_teams_some w) =
     list_ex (\<lambda>m. list_all (eval_MembershipWhere p m) w)
       (filter (\<lambda>m. membership_userId m = user_id u) (membership_table p))"

fun eval_HostWhere :: "Host \<Rightarrow> HostWhere \<Rightarrow> bool" where
  "eval_HostWhere h (Host_userId f) = eval_IntFilter f (Some (host_userId h))"

fun eval_EventTypeWhere :: "PrismaClient \<Rightarrow> EventType \<Rightarrow> EventTypeWhere \<Rightarrow> bool" where
  "eval_EventTypeWhere p e (EventType_teamId f) = eval_IntFilter f (teamId e)"
| "eval_EventTypeWhere p e (EventType_parentId f) = eval_IntFilter f (parentId e)"
| "eval_EventTypeWhere p e (EventType_team w) =
     (case teamId e of
        None \<Rightarrow> False
      | Some i \<Rightarrow>
          (case find (\<lambda>t. team_id t = i) (team_table p) of
             None \<Rightarrow> False
           | Some t \<Rightarrow> list_all (eval_TeamWhere p t) w))"
| "eval_EventTypeWhere p e (EventType_parent w) =
     (case parentId e of
        None \<Rightarrow> False
      | Some i \<Rightarrow>
          (case find (\<lambda>e'. eventType_id e' = i) (eventType_table p) of
             None \<Rightarrow> False
           | Some e' \<Rightarrow> list_all (eval_EventTypeWhere p e') w))"
| "eval_EventTypeWhere p e (EventType_hosts_some w) =
     list_ex (\<lambda>h. list_all (eval_HostWhere h) w)
       (filter (\<lambda>h. host_eventTypeId h = eventType_id e) (host_table p))"
| "eval_EventTypeWhere p e (EventType_users_some w) =
     list_ex (\<lambda>u. list_all (eval_UserWhere p u) w)
       (filter (\<lambda>u. (eventType_id e, user_id u) \<in> set (eventType_users p)) (user_table p))"

fun eval_AttendeeWhere :: "Attendee \<Rightarrow> AttendeeWhere \<Rightarrow> bool" where
  "eval_AttendeeWhere a (Attendee_email e) = (attendee_email a = e)"

fun eval_BookingSeatWhere :: "BookingSeat \<Rightarrow> BookingSeatWhere \<Rightarrow> bool" where
  "eval_BookingSeatWhere s (BookingSeat_attendee w) = list_all (eval_AttendeeWhere (seat_attendee s)) w"

fun eval_BookingWhere :: "PrismaClient \<Rightarrow> Booking \<Rightarrow> BookingWhere \<Rightarrow> bool" where
  "eval_BookingWhere p b (Booking_id f) = eval_IntFilter f (Some (booking_id b))"
| "eval_BookingWhere p b (Booking_userId f) = eval_IntFilter f (userId b)"
| "eval_BookingWhere p b (Booking_eventTypeId f) = eval_IntFilter f (eventTypeId b)"
| "eval_BookingWhere p b (Booking_endTime f) = eval_DateTimeFilter f (endTime b)"
| "eval_BookingWhere p b (Booking_status f) = eval_StatusFilter f (status b)"
| "eval_BookingWhere p b (Booking_recurringEventId f) = eval_StringNullableFilter f (recurringEventId b)"
| "eval_BookingWhere p b (Booking_eventType w) =
     (case eventTypeId b of
        None \<Rightarrow> False
      | Some i \<Rightarrow>
          (case find (\<lambda>e. eventType_id e = i) (eventType_table p) of
             None \<Rightarrow> False
           | Some e \<Rightarrow> list_all (eval_EventTypeWhere p e) w))"
| "eval_BookingWhere p b (Booking_user w) =
     (case userId b of
        None \<Rightarrow> False
      | Some i \<Rightarrow>
          (case find (\<lambda>u. user_id u = i) (user_table p) of
             None \<Rightarrow> False
           | Some u \<Rightarrow> list_all (eval_UserWhere p u) w))"
| "eval_BookingWhere p b (Booking_attendees_some w) =
     list_ex (\<lambda>a. list_all (eval_AttendeeWhere a) w) (attendees b)"
| "eval_BookingWhere p b (Booking_seatsReferences_some w) =
     list_ex (\<lambda>s. list_all (eval_BookingSeatWhere s) w) (seatsReferences b)"
| "eval_BookingWhere p b (Booking_AND ws) = list_all (\<lambda>w. list_all (eval_BookingWhere p b) w) ws"
| "eval_BookingWhere p b (Booking_OR ws) = list_ex (\<lambda>w. list_all (eval_BookingWhere p b) w) ws"
| "eval_BookingWhere p b (Booking_NOT w) = (\<not> list_all (eval_BookingWhere p b) w)"

definition matches :: "PrismaClient \<Rightarrow> BookingWhereInput \<Rightarrow> Booking \<Rightarrow> bool" where
  "matches p wh b = list_all (eval_BookingWhere p b) wh"

subsection \<open>The queries of the store client\<close>

text \<open>
  \<open>findMany\<close>: the rows that match, ordered, then \<open>skip\<close> and \<open>take\<close>. The store leaves the
  order of rows with equal keys open; the model keeps them in table order. \<open>take\<close> and
  \<open>skip\<close> are natural numbers (the client refuses a negative \<open>skip\<close>); the enrichment
  query passes neither.
\<close>

fun order_rows :: "BookingOrderBy \<Rightarrow> Booking list \<Rightarrow> Booking list" where
  "order_rows (orderBy_startTime asc) rows = sort_key startTime rows"
| "order_rows (orderBy_startTime desc) rows = sort_key (\<lambda>b. - startTime b) rows"

definition findMany ::
  "PrismaClient \<Rightarrow> Query \<Rightarrow> BookingWhereInput \<Rightarrow> BookingOrderBy \<Rightarrow> nat option \<Rightarrow> nat option
     \<Rightarrow> HandlerError + Booking list" where
  "findMany p q wh orderBy take_arg skip_arg =
     (case rejects p q of
        Some e \<Rightarrow> Inl e
      | None \<Rightarrow>
          Inr (let ordered = order_rows orderBy (filter (matches p wh) (booking_table p));
                   skipped = (case skip_arg of None \<Rightarrow> ordered | Some n \<Rightarrow> drop n ordered)
               in (case take_arg of None \<Rightarrow> skipped | Some n \<Rightarrow> take n skipped)))"

text \<open>
  \<open>groupBy\<close> with \<open>by: ["recurringEventId"]\<close>, \<open>_min: { startTime }\<close> and
  \<open>_count: { recurringEventId }\<close>: one row per value of the column among the matching
  rows. \<open>_count\<close> of a column counts its non-null values. The store leaves the order of
  the groups open; the model lists them by \<open>remdups\<close> of the keys in table order.
\<close>

record RecurringInfoBasicRow =
  basic_recurringEventId :: "string option"
  basic_min_startTime :: "date option"
  basic_count_recurringEventId :: nat

definition groupBy_recurringEventId ::
  "PrismaClient \<Rightarrow> Query \<Rightarrow> BookingWhereInput \<Rightarrow> HandlerError + RecurringInfoBasicRow list" where
  "groupBy_recurringEventId p q wh =
     (case rejects p q of
        Some e \<Rightarrow> Inl e
      | None \<Rightarrow>
          Inr (let matched = filter (matches p wh) (booking_table p)
               in map (\<lambda>k. let grp = filter (\<lambda>b. recurringEventId b = k) matched
                            in \<lparr> basic_recurringEventId = k,
                                 basic_min_startTime = Some (min_list (map startTime grp)),
                                 basic_count_recurringEventId =
                                   length (filter (\<lambda>b. recurringEventId b \<noteq> None) grp) \<rparr>)
                    (remdups (map recurringEventId matched))))"

text \<open>\<open>groupBy\<close> with \<open>by: ["recurringEventId", "status", "startTime"]\<close> and \<open>_min: { startTime }\<close>.\<close>

record RecurringInfoExtendedRow =
  ext_recurringEventId :: "string option"
  ext_status :: BookingStatus
  ext_startTime :: date
  ext_min_startTime :: "date option"

definition groupBy_recurringEventId_status_startTime ::
  "PrismaClient \<Rightarrow> Query \<Rightarrow> BookingWhereInput \<Rightarrow> HandlerError + RecurringInfoExtendedRow list" where
  "groupBy_recurringEventId_status_startTime p q wh =
     (case rejects p q of
        Some e \<Rightarrow> Inl e
      | None \<Rightarrow>
          Inr (let matched = filter (matches p wh) (booking_table p)
               in map (\<lambda>(k, st, t).
                         let grp = filter (\<lambda>b. recurringEventId b = k \<and> status b = st \<and> startTime b = t) matched
                         in \<lparr> ext_recurringEventId = k,
                              ext_status = st,
                              ext_startTime = t,
                              ext_min_startTime = Some (min_list (map startTime grp)) \<rparr>)
                    (remdups (map (\<lambda>b. (recurringEventId b, status b, startTime b)) matched))))"

subsection \<open>\<open>getHandler\<close>: the status filters and the orderings\<close>

text \<open>
  Modelled from the spec: the input schema is imported from a sibling module; the input
  has the filters (a status tag and the optional lists of team, user and event type
  ids), an optional limit and an optional cursor. An absent key is \<open>None\<close>; limit and
  cursor are natural numbers.
\<close>

datatype BookingListingStatus = upcoming | recurring | past | cancelled | unconfirmed

record Filters =
  teamIds :: "int list option"
  userIds :: "int list option"
  filter_status :: BookingListingStatus
  eventTypeIds :: "int list option"

record Input =
  filters :: Filters
  limit :: "nat option"
  cursor :: "nat option"

record SessionUser =
  session_user_id :: int
  session_user_email :: string

text \<open>
  \<open>bookingListingFilters\<close>, key by key as the object literal of the source; \<open>now\<close> is the
  value of the \<open>new Date()\<close> of the entry that is read.
\<close>

fun bookingListingFilters :: "date \<Rightarrow> BookingListingStatus \<Rightarrow> BookingWhereInput" where
  "bookingListingFilters now upcoming =
     [Booking_endTime (gte now),
      Booking_OR
        [[Booking_recurringEventId not_null,
          Booking_status (status_equals ACCEPTED)],
         [Booking_recurringEventId equals_null,
          Booking_status (status_notIn [CANCELLED, REJECTED])]]]"
| "bookingListingFilters now recurring =
     [Booking_endTime (gte now),
      Booking_AND
        [[Booking_NOT [Booking_recurringEventId equals_null]],
         [Booking_status (status_notIn [CANCELLED, REJECTED])]]]"
| "bookingListingFilters now past =
     [Booking_endTime (lte now),
      Booking_AND
        [[Booking_NOT [Booking_status (status_equals CANCELLED)]],
         [Booking_NOT [Booking_status (status_equals REJECTED)]]]]"
| "bookingListingFilters now cancelled =
     [Booking_OR
        [[Booking_status (status_equals CANCELLED)],
         [Booking_status (status_equals REJECTED)]]]"
| "bookingListingFilters now unconfirmed =
     [Booking_endTime (gte now),
      Booking_status (status_equals PENDING)]"

fun bookingListingOrderby :: "BookingListingStatus \<Rightarrow> BookingOrderBy" where
  "bookingListingOrderby upcoming = orderBy_startTime asc"
| "bookingListingOrderby recurring = orderBy_startTime asc"
| "bookingListingOrderby past = orderBy_startTime desc"
| "bookingListingOrderby cancelled = orderBy_startTime desc"
| "bookingListingOrderby unconfirmed = orderBy_startTime asc"

subsection \<open>\<open>getBookings\<close>: the scoping filters\<close>

definition bookingWhereInputFilters_teamIds :: "int list \<Rightarrow> BookingWhereInput" where
  "bookingWhereInputFilters_teamIds ids =
     [Booking_AND [[Booking_eventType [EventType_team [Team_id (int_in ids)]]]]]"

definition bookingWhereInputFilters_userIds :: "int list \<Rightarrow> BookingWhereInput" where
  "bookingWhereInputFilters_userIds ids =
     [Booking_AND
        [[Booking_OR
            [[Booking_eventType [EventType_hosts_some [Host_userId (int_in ids)]]],
             [Booking_userId (int_in ids)],
             [Booking_eventType [EventType_users_some [User_id (int_in ids)]]]]]]]"

definition bookingWhereInputFilters_eventTypeIds :: "int list \<Rightarrow> BookingWhereInput" where
  "bookingWhereInputFilters_eventTypeIds ids =
     [Booking_AND [[Booking_eventTypeId (int_in ids)]]]"

text \<open>
  \<open>Object.keys(filters).map((key) => bookingWhereInputFilters[key]).filter(Boolean)\<close>: one
  where-input for each scoping key that is present; the key \<open>status\<close> has no entry in
  the table and is dropped by \<open>filter(Boolean)\<close>.
\<close>

definition filtersCombined :: "Filters \<Rightarrow> BookingWhereInput list" where
  "filtersCombined fs =
     (case teamIds fs of None \<Rightarrow> [] | Some ids \<Rightarrow> [bookingWhereInputFilters_teamIds ids])
     @ (case userIds fs of None \<Rightarrow> [] | Some ids \<Rightarrow> [bookingWhereInputFilters_userIds ids])
     @ (case eventTypeIds fs of None \<Rightarrow> [] | Some ids \<Rightarrow> [bookingWhereInputFilters_eventTypeIds ids])"

subsection \<open>\<open>getBookings\<close>: the where-inputs of the seven parallel queries\<close>

definition where_bookingsQueryUserId ::
  "SessionUser \<Rightarrow> BookingWhereInput \<Rightarrow> BookingWhereInput list \<Rightarrow> BookingWhereInput" where
  "where_bookingsQueryUserId user passedBookingsStatusFilter fc =
     [Booking_OR [[Booking_userId (int_equals (session_user_id user))]],
      Booking_AND (passedBookingsStatusFilter # fc)]"

definition where_bookingsQueryAttendees ::
  "SessionUser \<Rightarrow> BookingWhereInput \<Rightarrow> BookingWhereInput list \<Rightarrow> BookingWhereInput" where
  "where_bookingsQueryAttendees user passedBookingsStatusFilter fc =
     [Booking_OR [[Booking_attendees_some [Attendee_email (session_user_email user)]]],
      Booking_AND (passedBookingsStatusFilter # fc)]"

definition where_bookingsQueryTeamEvents ::
  "SessionUser \<Rightarrow> BookingWhereInput \<Rightarrow> BookingWhereInput list \<Rightarrow> BookingWhereInput" where
  "where_bookingsQueryTeamEvents user passedBookingsStatusFilter fc =
     [Booking_OR
        [[Booking_eventType
            [EventType_team
               [Team_parent
                  [Team_members_some
                     [Membership_userId (int_equals (session_user_id user)),
                      Membership_role_in [ADMIN, OWNER]]]]]],
         [Booking_eventType
            [EventType_team
               [Team_members_some
                  [Membership_userId (int_equals (session_user_id user)),
                   Membership_role_in [ADMIN, OWNER]]]]],
         [Booking_eventType
            [EventType_parent
               [EventType_team
                  [Team_members_some
                     [Membership_userId (int_equals (session_user_id user)),
                      Membership_role_in [ADMIN, OWNER]]]]]],
         [Booking_eventType
            [EventType_parent
               [EventType_team
                  [Team_parent
                     [Team_members_some
                        [Membership_userId (int_equals (session_user_id user)),
                         Membership_role_in [ADMIN, OWNER]]]]]]]],
      Booking_AND (passedBookingsStatusFilter # fc)]"

definition where_bookingsQueryTeamUsersPersonalEvents ::
  "SessionUser \<Rightarrow> BookingWhereInput \<Rightarrow> BookingWhereInput list \<Rightarrow> BookingWhereInput" where
  "where_bookingsQueryTeamUsersPersonalEvents user passedBookingsStatusFilter fc =
     [Booking_AND
        ([[Booking_user [User_teams_some [Membership_team [Team_parentId (int_gt 0)]]]],
          [Booking_OR
             [[Booking_user
                 [User_teams_some
                    [Membership_team
                       [Team_parent
                          [Team_members_some
                             [Membership_userId (int_equals (session_user_id user)),
                              Membership_role_in [ADMIN, OWNER]]]]]]],
              [Booking_user
                 [User_teams_some
                    [Membership_team
                       [Team_members_some
                          [Membership_userId (int_equals (session_user_id user)),
                           Membership_role_in [ADMIN, OWNER]]]]]]]],
          [Booking_eventType [EventType_teamId int_null]],
          [Booking_eventType [EventType_parentId int_null]],
          passedBookingsStatusFilter]
         @ fc)]"

definition where_bookingsQuerySeatReference ::
  "SessionUser \<Rightarrow> BookingWhereInput \<Rightarrow> BookingWhereInput list \<Rightarrow> BookingWhereInput" where
  "where_bookingsQuerySeatReference user passedBookingsStatusFilter fc =
     [Booking_OR
        [[Booking_seatsReferences_some
            [BookingSeat_attendee [Attendee_email (session_user_email user)]]]],
      Booking_AND (passedBookingsStatusFilter # fc)]"

text \<open>The where-input that both aggregate queries share.\<close>

definition where_recurringInfo :: "SessionUser \<Rightarrow> BookingWhereInput" where
  "where_recurringInfo user =
     [Booking_recurringEventId not_equals_null,
      Booking_userId (int_equals (session_user_id user))]"

text \<open>
  \<open>Promise.all\<close> over the seven queries: the array of the seven results when every query
  resolves, a rejection as soon as one rejects. The queries only read, so the model
  runs them from left to right; when several reject, it reports the leftmost.
\<close>

definition and_then :: "'e + 'a \<Rightarrow> ('a \<Rightarrow> 'e + 'b) \<Rightarrow> 'e + 'b" where
  "and_then r k = (case r of Inl e \<Rightarrow> Inl e | Inr x \<Rightarrow> k x)"

type_synonym QueryResults =
  "Booking list \<times> Booking list \<times> Booking list \<times> Booking list \<times> Booking list
     \<times> RecurringInfoBasicRow list \<times> RecurringInfoExtendedRow list"

definition parallel_queries ::
  "PrismaClient \<Rightarrow> SessionUser \<Rightarrow> BookingWhereInput \<Rightarrow> Filters \<Rightarrow> BookingOrderBy \<Rightarrow> nat \<Rightarrow> nat
     \<Rightarrow> HandlerError + QueryResults" where
  "parallel_queries prisma user passedBookingsStatusFilter fs orderBy take_arg skip_arg =
     (let fc = filtersCombined fs in
      and_then (findMany prisma bookingsQueryUserId
                  (where_bookingsQueryUserId user passedBookingsStatusFilter fc)
                  orderBy (Some (take_arg + 1)) (Some skip_arg)) (\<lambda>q1.
      and_then (findMany prisma bookingsQueryAttendees
                  (where_bookingsQueryAttendees user passedBookingsStatusFilter fc)
                  orderBy (Some (take_arg + 1)) (Some skip_arg)) (\<lambda>q2.
      and_then (findMany prisma bookingsQueryTeamEvents
                  (where_bookingsQueryTeamEvents user passedBookingsStatusFilter fc)
                  orderBy (Some (take_arg + 1)) (Some skip_arg)) (\<lambda>q3.
      and_then (findMany prisma bookingsQueryTeamUsersPersonalEvents
                  (where_bookingsQueryTeamUsersPersonalEvents user passedBookingsStatusFilter fc)
                  orderBy (Some (take_arg + 1)) (Some skip_arg)) (\<lambda>q4.
      and_then (findMany prisma bookingsQuerySeatReference
                  (where_bookingsQuerySeatReference user passedBookingsStatusFilter fc)
                  orderBy (Some (take_arg + 1)) (Some skip_arg)) (\<lambda>q5.
      and_then (groupBy_recurringEventId prisma recurringInfoBasic
                  (where_recurringInfo user)) (\<lambda>basic.
      and_then (groupBy_recurringEventId_status_startTime prisma recurringInfoExtended
                  (where_recurringInfo user)) (\<lambda>extended.
      Inr (q1, q2, q3, q4, q5, basic, extended)))))))))"

subsection \<open>\<open>getBookings\<close>: the recurring-series summary\<close>

text \<open>
  The status buckets are the object literal
  \<open>{ ACCEPTED: [], CANCELLED: [], REJECTED: [], PENDING: [], AWAITING_HOST: [] }\<close>: an
  association list in the order of its keys. \<open>prev[curr.status].push(curr.startTime)\<close>
  reads the bucket and appends to it; on a missing key the read gives \<open>undefined\<close> and
  the call throws.
\<close>

type_synonym StatusBuckets = "(BookingStatus \<times> date list) list"

record RecurringInfo =
  info_recurringEventId :: "string option"
  info_count :: nat
  info_firstDate :: "date option"
  info_bookings :: StatusBuckets

definition empty_buckets :: StatusBuckets where
  "empty_buckets =
     [(ACCEPTED, []), (CANCELLED, []), (REJECTED, []), (PENDING, []), (AWAITING_HOST, [])]"

definition push_bucket :: "StatusBuckets \<Rightarrow> BookingStatus \<Rightarrow> date \<Rightarrow> HandlerError + StatusBuckets" where
  "push_bucket prev st t =
     (case map_of prev st of
        None \<Rightarrow> Inl (TypeError ''Cannot read properties of undefined (reading 'push')'')
      | Some ds \<Rightarrow> Inr (map (\<lambda>(k, v). if k = st then (k, ds @ [t]) else (k, v)) prev))"

text \<open>The callback of \<open>recurringInfoExtended.reduce\<close>, and the reduction from the left.\<close>

definition reduce_callback ::
  "RecurringInfoBasicRow \<Rightarrow> StatusBuckets \<Rightarrow> RecurringInfoExtendedRow \<Rightarrow> HandlerError + StatusBuckets" where
  "reduce_callback info prev current =
     (if ext_recurringEventId current = basic_recurringEventId info
      then push_bucket prev (ext_status current) (ext_startTime current)
      else Inr prev)"

fun reduce :: "('b \<Rightarrow> 'a \<Rightarrow> 'e + 'b) \<Rightarrow> 'a list \<Rightarrow> 'b \<Rightarrow> 'e + 'b" where
  "reduce f [] prev = Inr prev"
| "reduce f (current # rest) prev =
     (case f prev current of Inl e \<Rightarrow> Inl e | Inr prev' \<Rightarrow> reduce f rest prev')"

text \<open>\<open>Array.prototype.map\<close> with a callback that may throw: the first throw ends the map.\<close>

fun map_throwing :: "('a \<Rightarrow> 'e + 'b) \<Rightarrow> 'a list \<Rightarrow> 'e + 'b list" where
  "map_throwing f [] = Inr []"
| "map_throwing f (x # xs) =
     (case f x of
        Inl e \<Rightarrow> Inl e
      | Inr y \<Rightarrow> (case map_throwing f xs of Inl e \<Rightarrow> Inl e | Inr ys \<Rightarrow> Inr (y # ys)))"

definition recurringInfo_callback ::
  "RecurringInfoExtendedRow list \<Rightarrow> RecurringInfoBasicRow \<Rightarrow> HandlerError + RecurringInfo" where
  "recurringInfo_callback extended info =
     (case reduce (reduce_callback info) extended empty_buckets of
        Inl e \<Rightarrow> Inl e
      | Inr bookings \<Rightarrow>
          Inr \<lparr> info_recurringEventId = basic_recurringEventId info,
                info_count = basic_count_recurringEventId info,
                info_firstDate = basic_min_startTime info,
                info_bookings = bookings \<rparr>)"

definition recurringInfo ::
  "RecurringInfoBasicRow list \<Rightarrow> RecurringInfoExtendedRow list \<Rightarrow> HandlerError + RecurringInfo list" where
  "recurringInfo basic extended = map_throwing (recurringInfo_callback extended) basic"

subsection \<open>\<open>getBookings\<close>: the enrichment query and its projection\<close>

text \<open>
  The rows of the enrichment query have the shape of \<open>bookingSelect\<close>. The same record
  serves for the bookings of the response, where the event type is the rebuilt object and
  the two times are strings; the two differences are the type parameters.
\<close>

record SelectedTeam =
  selected_team_id :: int
  selected_team_name :: string

record SelectedEventType =
  selected_slug :: string
  selected_id :: int
  selected_eventName :: "string option"
  selected_price :: int
  selected_recurringEvent :: json
  selected_currency :: string
  selected_metadata :: json
  selected_seatsShowAttendees :: "bool option"
  selected_seatsShowAvailabilityCount :: "bool option"
  selected_team :: "SelectedTeam option"

record SelectedSeat =
  selected_referenceUid :: string
  selected_attendee_email :: string

text \<open>
  Modelled from the spec: \<open>bookingMinimalSelect\<close>, which \<open>bookingSelect\<close> spreads first, is
  imported from the store package; of its columns the record keeps \<open>id\<close>, \<open>title\<close>,
  \<open>startTime\<close>, \<open>endTime\<close> and \<open>attendees\<close>, which the handler reads or the
  specification names in the full projection. The other fields are the keys of
  \<open>bookingSelect\<close> in their order.
\<close>

record ('e, 't) BookingPayload =
  b_id :: int
  b_title :: string
  b_startTime :: 't
  b_endTime :: 't
  b_attendees :: "Attendee list"
  b_uid :: string
  b_recurringEventId :: "string option"
  b_location :: "string option"
  b_eventType :: 'e
  b_status :: BookingStatus
  b_paid :: bool
  b_payment :: "Payment list"
  b_user :: "User option"
  b_rescheduled :: "bool option"
  b_references :: "BookingReference list"
  b_isRecorded :: bool
  b_seatsReferences :: "SelectedSeat list"

type_synonym SelectedBooking = "(SelectedEventType option, date) BookingPayload"

definition select_eventType :: "PrismaClient \<Rightarrow> EventType \<Rightarrow> SelectedEventType" where
  "select_eventType p e =
     \<lparr> selected_slug = slug e,
       selected_id = eventType_id e,
       selected_eventName = eventName e,
       selected_price = price e,
       selected_recurringEvent = recurringEvent e,
       selected_currency = currency e,
       selected_metadata = metadata e,
       selected_seatsShowAttendees = seatsShowAttendees e,
       selected_seatsShowAvailabilityCount = seatsShowAvailabilityCount e,
       selected_team =
         (case teamId e of
            None \<Rightarrow> None
          | Some i \<Rightarrow>
              map_option (\<lambda>t. \<lparr> selected_team_id = team_id t, selected_team_name = team_name t \<rparr>)
                (find (\<lambda>t. team_id t = i) (team_table p))) \<rparr>"

text \<open>
  \<open>seatsReferences: { where: { attendee: { email: user.email } }, select: { referenceUid,
  attendee: { email } } }\<close>.
\<close>

definition select_seatsReferences :: "SessionUser \<Rightarrow> BookingSeat list \<Rightarrow> SelectedSeat list" where
  "select_seatsReferences user seats =
     map (\<lambda>s. \<lparr> selected_referenceUid = referenceUid s,
                 selected_attendee_email = attendee_email (seat_attendee s) \<rparr>)
       (filter (\<lambda>s. list_all (eval_BookingSeatWhere s)
                       [BookingSeat_attendee [Attendee_email (session_user_email user)]])
          seats)"

definition bookingSelect :: "PrismaClient \<Rightarrow> SessionUser \<Rightarrow> Booking \<Rightarrow> SelectedBooking" where
  "bookingSelect p user b =
     \<lparr> b_id = booking_id b,
       b_title = title b,
       b_startTime = startTime b,
       b_endTime = endTime b,
       b_attendees = attendees b,
       b_uid = uid b,
       b_recurringEventId = recurringEventId b,
       b_location = location b,
       b_eventType =
         (case eventTypeId b of
            None \<Rightarrow> None
          | Some i \<Rightarrow> map_option (select_eventType p) (find (\<lambda>e. eventType_id e = i) (eventType_table p))),
       b_status = status b,
       b_paid = paid b,
       b_payment = payment b,
       b_user =
         (case userId b of
            None \<Rightarrow> None
          | Some i \<Rightarrow> find (\<lambda>u. user_id u = i) (user_table p)),
       b_rescheduled = rescheduled b,
       b_references = references b,
       b_isRecorded = isRecorded b,
       b_seatsReferences = select_seatsReferences user (seatsReferences b) \<rparr>"

subsection \<open>\<open>getBookings\<close>: redaction and normalisation of an enriched booking\<close>

text \<open>
  The two parsers are imported from other packages of the repository and are parameters:
  \<open>parseRecurringEvent\<close> returns a value or \<open>null\<close>, \<open>EventTypeMetaDataSchema.parse\<close> returns
  a value or throws. \<open>toISOString\<close> is kept as a constructor around the date.
\<close>

record Parsers =
  parseRecurringEvent :: "json option \<Rightarrow> json option"
  EventTypeMetaDataSchema_parse :: "json \<Rightarrow> HandlerError + json"

datatype ISOString = toISOString date

record ResponseEventType =
  response_slug :: "string option"
  response_id :: "int option"
  response_eventName :: "string option"
  response_seatsShowAttendees :: "bool option"
  response_seatsShowAvailabilityCount :: "bool option"
  response_team :: "SelectedTeam option"
  response_recurringEvent :: "json option"
  response_price :: int
  response_currency :: string
  response_metadata :: json

type_synonym ResponseBooking = "(ResponseEventType, ISOString) BookingPayload"

text \<open>What \<open>||\<close> and \<open>!\<close> test of a JSON value.\<close>

fun truthy :: "json \<Rightarrow> bool" where
  "truthy JNull = False"
| "truthy (JBool v) = v"
| "truthy (JNumber n) = (n \<noteq> 0)"
| "truthy (JString s) = (s \<noteq> [])"
| "truthy (JArray xs) = True"
| "truthy (JObject kvs) = True"

text \<open>
  \<open>if (booking.seatsReferences.length && !booking.eventType?.seatsShowAttendees)\<close>: the
  flag is falsy when there is no event type, when it is null and when it is false.
\<close>

definition redact_attendees :: "SessionUser \<Rightarrow> SelectedBooking \<Rightarrow> SelectedBooking" where
  "redact_attendees user booking =
     (if length (b_seatsReferences booking) \<noteq> 0
         \<and> \<not> (case b_eventType booking of
                 None \<Rightarrow> False
               | Some e \<Rightarrow> selected_seatsShowAttendees e = Some True)
      then booking \<lparr> b_attendees :=
             filter (\<lambda>attendee. attendee_email attendee = session_user_email user) (b_attendees booking) \<rparr>
      else booking)"

definition normalise :: "Parsers \<Rightarrow> SelectedBooking \<Rightarrow> HandlerError + ResponseBooking" where
  "normalise ps booking =
     (let et = b_eventType booking;
          parsedRecurringEvent = parseRecurringEvent ps (map_option selected_recurringEvent et);
          price' = (case et of None \<Rightarrow> 0 | Some e \<Rightarrow> if selected_price e \<noteq> 0 then selected_price e else 0);
          currency' = (case et of None \<Rightarrow> ''usd''
                       | Some e \<Rightarrow> if selected_currency e \<noteq> [] then selected_currency e else ''usd'');
          rawMetadata = (case et of None \<Rightarrow> JObject []
                       | Some e \<Rightarrow> if truthy (selected_metadata e) then selected_metadata e else JObject [])
      in case EventTypeMetaDataSchema_parse ps rawMetadata of
           Inl e \<Rightarrow> Inl e
         | Inr parsedMetadata \<Rightarrow>
             Inr \<lparr> b_id = b_id booking,
                   b_title = b_title booking,
                   b_startTime = toISOString (b_startTime booking),
                   b_endTime = toISOString (b_endTime booking),
                   b_attendees = b_attendees booking,
                   b_uid = b_uid booking,
                   b_recurringEventId = b_recurringEventId booking,
                   b_location = b_location booking,
                   b_eventType =
                     \<lparr> response_slug = map_option selected_slug et,
                       response_id = map_option selected_id et,
                       response_eventName = Option.bind et selected_eventName,
                       response_seatsShowAttendees = Option.bind et selected_seatsShowAttendees,
                       response_seatsShowAvailabilityCount = Option.bind et selected_seatsShowAvailabilityCount,
                       response_team = Option.bind et selected_team,
                       response_recurringEvent = parsedRecurringEvent,
                       response_price = price',
                       response_currency = currency',
                       response_metadata = parsedMetadata \<rparr>,
                   b_status = b_status booking,
                   b_paid = b_paid booking,
                   b_payment = b_payment booking,
                   b_user = b_user booking,
                   b_rescheduled = b_rescheduled booking,
                   b_references = b_references booking,
                   b_isRecorded = b_isRecorded booking,
                   b_seatsReferences = b_seatsReferences booking \<rparr>)"

definition enrich :: "Parsers \<Rightarrow> SessionUser \<Rightarrow> SelectedBooking \<Rightarrow> HandlerError + ResponseBooking" where
  "enrich ps user booking = normalise ps (redact_attendees user booking)"

subsection \<open>\<open>getBookings\<close> and \<open>getHandler\<close>\<close>

text \<open>
  Both functions take the module-level set on entry and return it on exit, next to
  their result (a value when the promise resolves, the error when it rejects).
\<close>

record GetBookingsResult =
  result_bookings :: "ResponseBooking list"
  result_recurringInfo :: "RecurringInfo list"

definition getBookings ::
  "Parsers \<Rightarrow> PrismaClient \<Rightarrow> SessionUser \<Rightarrow> BookingWhereInput \<Rightarrow> Filters \<Rightarrow> BookingOrderBy
     \<Rightarrow> nat \<Rightarrow> nat \<Rightarrow> string set \<Rightarrow> (HandlerError + GetBookingsResult) \<times> string set" where
  "getBookings ps prisma user passedBookingsStatusFilter fs orderBy take_arg skip_arg s =
     (case parallel_queries prisma user passedBookingsStatusFilter fs orderBy take_arg skip_arg of
        Inl e \<Rightarrow> (Inl e, s)
      | Inr (q1, q2, q3, q4, q5, basic, extended) \<Rightarrow>
          (case recurringInfo basic extended of
             Inl e \<Rightarrow> (Inl e, s)
           | Inr infos \<Rightarrow>
               (case getUniqueBookings uid (q1 @ q2 @ q3 @ q4 @ q5) s of
                  (plainBookings, s') \<Rightarrow>
                    (case findMany prisma enrichmentQuery
                            [Booking_id (int_in (map booking_id plainBookings))]
                            orderBy None None of
                       Inl e \<Rightarrow> (Inl e, s')
                     | Inr rows \<Rightarrow>
                         (case map_throwing (enrich ps user) (map (bookingSelect prisma user) rows) of
                            Inl e \<Rightarrow> (Inl e, s')
                          | Inr bookings \<Rightarrow>
                              (Inr \<lparr> result_bookings = bookings, result_recurringInfo = infos \<rparr>, s'))))))"

record Response =
  bookings :: "ResponseBooking list"
  recurringInfo_of :: "RecurringInfo list"
  nextCursor :: "nat option"

definition getHandler ::
  "Parsers \<Rightarrow> date \<Rightarrow> PrismaClient \<Rightarrow> SessionUser \<Rightarrow> Input \<Rightarrow> string set
     \<Rightarrow> (HandlerError + Response) \<times> string set" where
  "getHandler ps now prisma user input s =
     (let take_arg = (case limit input of None \<Rightarrow> 10 | Some l \<Rightarrow> l);
          skip_arg = (case cursor input of None \<Rightarrow> 0 | Some c \<Rightarrow> c);
          bookingListingByStatus = filter_status (filters input);
          passedBookingsStatusFilter = bookingListingFilters now bookingListingByStatus;
          orderBy = bookingListingOrderby bookingListingByStatus
      in case getBookings ps prisma user passedBookingsStatusFilter (filters input) orderBy take_arg skip_arg s of
           (Inl e, s') \<Rightarrow> (Inl e, s')
         | (Inr r, s') \<Rightarrow>
             (let bookingsFetched = length (result_bookings r);
                  cursor' = (if bookingsFetched > take_arg then Some (skip_arg + bookingsFetched) else None)
              in (Inr \<lparr> bookings = result_bookings r,
                        recurringInfo_of = result_recurringInfo r,
                        nextCursor = cursor' \<rparr>, s')))"

subsection \<open>The recurring-series summary in the words of the specification\<close>

text \<open>
  For a group of the basic aggregate query: the count and the minimum start time of the
  group, and for each of the five statuses the start times of the rows of the extended
  aggregate query that share the series identifier and have that status, in the order
  of those rows.
\<close>

definition summary_of :: "RecurringInfoExtendedRow list \<Rightarrow> RecurringInfoBasicRow \<Rightarrow> RecurringInfo" where
  "summary_of extended info =
     \<lparr> info_recurringEventId = basic_recurringEventId info,
       info_count = basic_count_recurringEventId info,
       info_firstDate = basic_min_startTime info,
       info_bookings =
         map (\<lambda>st. (st, map ext_startTime
                          (filter (\<lambda>row. ext_recurringEventId row = basic_recurringEventId info
                                         \<and> ext_status row = st) extended)))
           [ACCEPTED, CANCELLED, REJECTED, PENDING, AWAITING_HOST] \<rparr>"

subsection \<open>Names for what \<open>getHandler\<close> passes to \<open>getBookings\<close>\<close>

text \<open>\<open>input.limit ?? 10\<close> and \<open>input.cursor ?? 0\<close>.\<close>

definition take_of :: "Input \<Rightarrow> nat" where
  "take_of input = (case limit input of None \<Rightarrow> 10 | Some l \<Rightarrow> l)"

definition skip_of :: "Input \<Rightarrow> nat" where
  "skip_of input = (case cursor input of None \<Rightarrow> 0 | Some c \<Rightarrow> c)"

text \<open>The seven parallel queries as \<open>getHandler\<close> has \<open>getBookings\<close> send them.\<close>

definition handler_queries ::
  "date \<Rightarrow> PrismaClient \<Rightarrow> SessionUser \<Rightarrow> Input \<Rightarrow> HandlerError + QueryResults" where
  "handler_queries now prisma user input =
     parallel_queries prisma user
       (bookingListingFilters now (filter_status (filters input))) (filters input)
       (bookingListingOrderby (filter_status (filters input)))
       (take_of input) (skip_of input)"


text \<open>
  The stored bookings that match a request: those that at least one of the five
  visibility queries selects (each of them applies the status filter and the scoping
  filters of the request).
\<close>

definition visible_matching :: "date \<Rightarrow> PrismaClient \<Rightarrow> SessionUser \<Rightarrow> Input \<Rightarrow> Booking list" where
  "visible_matching now p u input =
     (let passed = bookingListingFilters now (filter_status (filters input));
          fc = filtersCombined (filters input)
      in filter (\<lambda>b. matches p (where_bookingsQueryUserId u passed fc) b
                     \<or> matches p (where_bookingsQueryAttendees u passed fc) b
                     \<or> matches p (where_bookingsQueryTeamEvents u passed fc) b
                     \<or> matches p (where_bookingsQueryTeamUsersPersonalEvents u passed fc) b
                     \<or> matches p (where_bookingsQuerySeatReference u passed fc) b)
           (booking_table p))"

subsection \<open>Concrete stores for the scenarios of the specification\<close>

text \<open>The viewer of every scenario, and parsers that accept every value.\<close>

definition viewer :: SessionUser where
  "viewer = \<lparr> session_user_id = 1, session_user_email = ''viewer@example.com'' \<rparr>"

definition accepting_parsers :: Parsers where
  "accepting_parsers =
     \<lparr> parseRecurringEvent = (\<lambda>j. (case j of None \<Rightarrow> None | Some JNull \<Rightarrow> None | Some v \<Rightarrow> Some v)),
       EventTypeMetaDataSchema_parse = (\<lambda>j. Inr j) \<rparr>"

definition an_attendee :: "int \<Rightarrow> string \<Rightarrow> Attendee" where
  "an_attendee i e = \<lparr> attendee_id = i, attendee_email = e, attendee_name = ''guest'' \<rparr>"

text \<open>A booking with the given identity, owner, event type, times, status and series.\<close>

definition a_booking ::
  "int \<Rightarrow> string \<Rightarrow> int option \<Rightarrow> int option \<Rightarrow> date \<Rightarrow> date \<Rightarrow> BookingStatus \<Rightarrow> string option
     \<Rightarrow> Attendee list \<Rightarrow> BookingSeat list \<Rightarrow> Booking" where
  "a_booking i u owner et t1 t2 st series as seats =
     \<lparr> booking_id = i, uid = u, title = ''meeting'', userId = owner, eventTypeId = et,
       startTime = t1, endTime = t2, status = st, recurringEventId = series,
       location = None, paid = False, rescheduled = None, isRecorded = False,
       attendees = as, seatsReferences = seats, payment = [], references = [] \<rparr>"

definition an_eventType :: "int \<Rightarrow> bool option \<Rightarrow> EventType" where
  "an_eventType i showAttendees =
     \<lparr> eventType_id = i, slug = ''seated'', eventName = None, price = 0, currency = ''usd'',
       recurringEvent = JNull, metadata = JNull, seatsShowAttendees = showAttendees,
       seatsShowAvailabilityCount = Some True, teamId = None, parentId = None \<rparr>"

definition a_store :: "Booking list \<Rightarrow> EventType list \<Rightarrow> PrismaClient" where
  "a_store bs ets =
     \<lparr> booking_table = bs, eventType_table = ets, team_table = [], membership_table = [],
       user_table = [\<lparr> user_id = 1, user_name = Some ''Viewer'', user_email = ''viewer@example.com'' \<rparr>,
                     \<lparr> user_id = 2, user_name = Some ''Host'', user_email = ''host@example.com'' \<rparr>],
       host_table = [], eventType_users = [], rejects = (\<lambda>q. None) \<rparr>"

definition a_request :: "BookingListingStatus \<Rightarrow> nat option \<Rightarrow> nat option \<Rightarrow> Input" where
  "a_request tag l c =
     \<lparr> filters = \<lparr> teamIds = None, userIds = None, filter_status = tag, eventTypeIds = None \<rparr>,
       limit = l, cursor = c \<rparr>"

text \<open>
  Scenario D: three bookings owned by the viewer that end after \<open>now = 50\<close>.
\<close>

definition scenario_D :: PrismaClient where
  "scenario_D =
     a_store
       [a_booking 1 ''b1'' (Some 1) None 100 200 ACCEPTED None [] [],
        a_booking 2 ''b2'' (Some 1) None 300 400 ACCEPTED None [] [],
        a_booking 3 ''b3'' (Some 1) None 500 600 PENDING None [] []]
       []"

text \<open>
  Scenario C: the viewer owns a seated booking and holds a seat of it; on the same
  booking there is a second guest. The event type does not show attendees.
\<close>

definition scenario_C_booking :: Booking where
  "scenario_C_booking =
     a_booking 3 ''b3'' (Some 1) (Some 7) 100 200 ACCEPTED None
       [an_attendee 11 ''viewer@example.com'', an_attendee 12 ''guest@example.com'']
       [\<lparr> referenceUid = ''seat-1'', seat_attendee = an_attendee 11 ''viewer@example.com'' \<rparr>,
        \<lparr> referenceUid = ''seat-2'', seat_attendee = an_attendee 12 ''guest@example.com'' \<rparr>]"

definition scenario_C :: PrismaClient where
  "scenario_C = a_store [scenario_C_booking] [an_eventType 7 (Some False)]"

text \<open>
  The same booking with two attendee rows that carry the viewer's email.
\<close>

definition scenario_two_rows :: PrismaClient where
  "scenario_two_rows =
     a_store
       [a_booking 3 ''b3'' (Some 2) (Some 7) 100 200 ACCEPTED None
          [an_attendee 11 ''viewer@example.com'', an_attendee 12 ''viewer@example.com'']
          [\<lparr> referenceUid = ''seat-1'', seat_attendee = an_attendee 11 ''viewer@example.com'' \<rparr>]]
       [an_eventType 7 (Some False)]"

text \<open>
  Scenario E: a series of three occurrences owned by the viewer, at times 100, 200 and
  300, accepted, accepted and cancelled; and an occurrence of another series that the
  viewer only attends.
\<close>

definition scenario_E :: PrismaClient where
  "scenario_E =
     a_store
       [a_booking 1 ''e1'' (Some 1) None 100 150 ACCEPTED (Some ''series'') [] [],
        a_booking 2 ''e2'' (Some 1) None 200 250 ACCEPTED (Some ''series'') [] [],
        a_booking 3 ''e3'' (Some 1) None 300 350 CANCELLED (Some ''series'') [] [],
        a_booking 4 ''e4'' (Some 2) None 400 450 ACCEPTED (Some ''other'')
          [an_attendee 11 ''viewer@example.com''] []]
       []"

text \<open>Scenario E without the occurrence that the viewer only attends.\<close>

definition scenario_E_owned :: PrismaClient where
  "scenario_E_owned =
     a_store
       [a_booking 1 ''e1'' (Some 1) None 100 150 ACCEPTED (Some ''series'') [] [],
        a_booking 2 ''e2'' (Some 1) None 200 250 ACCEPTED (Some ''series'') [] [],
        a_booking 3 ''e3'' (Some 1) None 300 350 CANCELLED (Some ''series'') [] []]
       []"



text \<open>The calls of the handler on the scenarios, at \<open>now = 50\<close>, from the module's initial set.\<close>

definition call_C :: "(HandlerError + Response) \<times> string set" where
  "call_C = getHandler accepting_parsers 50 scenario_C viewer (a_request upcoming None None) initial_set"

definition call_two_rows :: "(HandlerError + Response) \<times> string set" where
  "call_two_rows =
     getHandler accepting_parsers 50 scenario_two_rows viewer (a_request upcoming None None) initial_set"

definition call_E :: "(HandlerError + Response) \<times> string set" where
  "call_E = getHandler accepting_parsers 50 scenario_E viewer (a_request upcoming None None) initial_set"

definition call_E_owned :: "(HandlerError + Response) \<times> string set" where
  "call_E_owned =
     getHandler accepting_parsers 50 scenario_E_owned viewer (a_request upcoming None None) initial_set"

definition call_D_first :: "(HandlerError + Response) \<times> string set" where
  "call_D_first =
     getHandler accepting_parsers 50 scenario_D viewer (a_request upcoming (Some 2) (Some 0)) initial_set"

definition call_D_second :: "(HandlerError + Response) \<times> string set" where
  "call_D_second =
     getHandler accepting_parsers 50 scenario_D viewer (a_request upcoming (Some 2) (Some 3)) initial_set"



section \<open>Verification\<close>

subsection \<open>The deduplication\<close>

lemma filter_with_set_fst:
  "fst (filter_with_set uid_of arr s) =
     map (\<lambda>i. arr ! i)
       (filter (\<lambda>i. uid_of (arr ! i) \<notin> s \<union> uid_of ` set (take i arr)) [0..<length arr])"
proof (induction arr arbitrary: s)
  case Nil
  then show ?case by simp
next
  case (Cons b bs)
  let ?P = "\<lambda>i. uid_of ((b # bs) ! i) \<notin> s \<union> uid_of ` set (take i (b # bs))"
  let ?Q = "\<lambda>i. uid_of (bs ! i) \<notin> insert (uid_of b) s \<union> uid_of ` set (take i bs)"
  have shift: "[0..<length (b # bs)] = 0 # map Suc [0..<length bs]"
    by (simp add: upt_conv_Cons map_Suc_upt del: upt_Suc)
  have PQ: "?P (Suc i) = ?Q i" for i
    by auto
  have tl_eq: "map (\<lambda>i. (b # bs) ! i) (filter ?P (map Suc [0..<length bs]))
      = map (\<lambda>i. bs ! i) (filter ?Q [0..<length bs])"
    unfolding filter_map comp_def PQ by (simp add: comp_def)
  have hd_eq: "?P 0 = (uid_of b \<notin> s)"
    by simp
  have rec: "fst (filter_with_set uid_of bs (insert (uid_of b) s)) = map (\<lambda>i. bs ! i) (filter ?Q [0..<length bs])"
    by (rule Cons.IH)
  have step: "fst (filter_with_set uid_of (b # bs) s) =
      (if uid_of b \<notin> s then b # fst (filter_with_set uid_of bs (insert (uid_of b) s))
       else fst (filter_with_set uid_of bs (insert (uid_of b) s)))"
    by (simp add: unique_callback_def split: prod.splits)
  have "map (\<lambda>i. (b # bs) ! i) (filter ?P (0 # map Suc [0..<length bs])) =
      (if uid_of b \<notin> s then b # map (\<lambda>i. bs ! i) (filter ?Q [0..<length bs])
       else map (\<lambda>i. bs ! i) (filter ?Q [0..<length bs]))"
    using tl_eq hd_eq by (simp del: upt_Suc)
  then show ?case
    unfolding shift step rec by simp
qed

lemma getUniqueBookings_fst:
  "fst (getUniqueBookings uid_of arr {}) = first_occurrences uid_of arr"
proof -
  have "fst (getUniqueBookings uid_of arr {}) = fst (filter_with_set uid_of arr {})"
    by (simp add: getUniqueBookings_def split: prod.splits)
  then show ?thesis
    by (simp add: filter_with_set_fst first_occurrences_def)
qed

lemma getUniqueBookings_snd: "snd (getUniqueBookings uid_of arr s) = {}"
  by (simp add: getUniqueBookings_def split: prod.splits)

lemma first_occurrences_Nil: "first_occurrences uid_of [] = []"
  by (simp add: first_occurrences_def)

lemma filter_with_set_fst_filter:
  "fst (filter_with_set uid_of arr s) =
     (case arr of [] \<Rightarrow> []
      | b # bs \<Rightarrow> (if uid_of b \<in> s then [] else [b]) @ fst (filter_with_set uid_of bs (insert (uid_of b) s)))"
  by (cases arr) (simp_all add: unique_callback_def split: prod.splits)

lemma set_filter_with_set:
  "set (fst (filter_with_set uid_of arr s)) \<subseteq> set arr"
proof (induction arr arbitrary: s)
  case Nil
  then show ?case by simp
next
  case (Cons b bs)
  have "set (fst (filter_with_set uid_of bs (insert (uid_of b) s))) \<subseteq> set bs"
    by (rule Cons.IH)
  then show ?case
    by (subst filter_with_set_fst_filter) auto
qed

lemma uids_filter_with_set:
  "uid_of ` set (fst (filter_with_set uid_of arr s)) = uid_of ` set arr - s"
proof (induction arr arbitrary: s)
  case Nil
  then show ?case by simp
next
  case (Cons b bs)
  have "uid_of ` set (fst (filter_with_set uid_of bs (insert (uid_of b) s))) = uid_of ` set bs - insert (uid_of b) s"
    by (rule Cons.IH)
  then show ?case
    by (subst filter_with_set_fst_filter) auto
qed

lemma distinct_filter_with_set:
  "distinct (map uid_of (fst (filter_with_set uid_of arr s)))"
proof (induction arr arbitrary: s)
  case Nil
  then show ?case by simp
next
  case (Cons b bs)
  have d: "distinct (map uid_of (fst (filter_with_set uid_of bs (insert (uid_of b) s))))"
    by (rule Cons.IH)
  have "uid_of b \<notin> uid_of ` set (fst (filter_with_set uid_of bs (insert (uid_of b) s)))"
    unfolding uids_filter_with_set by simp
  with d show ?case
    by (subst filter_with_set_fst_filter) simp
qed

text \<open>On a list without repeated uids, and a set that holds none of them, nothing is dropped.\<close>

lemma filter_with_set_distinct:
  "distinct (map uid_of arr) \<Longrightarrow> uid_of ` set arr \<inter> s = {} \<Longrightarrow> fst (filter_with_set uid_of arr s) = arr"
proof (induction arr arbitrary: s)
  case Nil
  then show ?case by simp
next
  case (Cons b bs)
  from Cons.prems have d: "distinct (map uid_of bs)" and nb: "uid_of b \<notin> uid_of ` set bs"
    and ns: "uid_of b \<notin> s" and disj: "uid_of ` set bs \<inter> s = {}"
    by auto
  from nb disj have "uid_of ` set bs \<inter> insert (uid_of b) s = {}"
    by auto
  with d have "fst (filter_with_set uid_of bs (insert (uid_of b) s)) = bs"
    by (rule Cons.IH)
  with ns show ?case
    by (subst filter_with_set_fst_filter) simp
qed

lemma getUniqueBookings_eq:
  "getUniqueBookings uid_of arr s = (fst (filter_with_set uid_of arr s), {})"
  by (simp add: getUniqueBookings_def split: prod.splits)

lemma getUniqueBookings_idem:
  "fst (getUniqueBookings uid_of (fst (getUniqueBookings uid_of arr s)) {}) = fst (getUniqueBookings uid_of arr s)"
  by (simp add: getUniqueBookings_eq filter_with_set_distinct distinct_filter_with_set)

lemma sequential_calls_empty:
  "c \<in> set (sequential_calls uid_of arrs {}) \<Longrightarrow> fst c = {} \<and> snd (snd c) = {}"
proof (induction arrs)
  case Nil
  then show ?case by simp
next
  case (Cons arr arrs)
  then show ?case
    by (auto simp: getUniqueBookings_eq)
qed

text \<open>
  C4. The deduplication keeps exactly the entries whose uid has not occurred earlier in
  the list, in their order (the first occurrence of every uid wins; the key is the uid,
  whatever the other fields are), and deduplicating its result again changes nothing.
\<close>

theorem dedup_first_occurrence_idempotent:
  "fst (getUniqueBookings uid_of arr initial_set) = first_occurrences uid_of arr
   \<and> distinct (map uid_of (fst (getUniqueBookings uid_of arr initial_set)))
   \<and> fst (getUniqueBookings uid_of (fst (getUniqueBookings uid_of arr initial_set)) initial_set)
       = fst (getUniqueBookings uid_of arr initial_set)"
  unfolding initial_set_def
  using getUniqueBookings_fst [where uid_of = uid_of and arr = arr]
    getUniqueBookings_idem [where uid_of = uid_of and arr = arr and s = "{}"]
    distinct_filter_with_set [where uid_of = uid_of and arr = arr and s = "{}"]
  by (simp add: getUniqueBookings_eq)

text \<open>
  Two entries with the numeric id 2 and different uids are both kept; of the two entries
  with the uid \<open>a\<close> the first is kept.
\<close>

theorem dedup_first_occurrence_idempotent_witness:
  "fst (getUniqueBookings snd [(1::int, ''a''), (2, ''b''), (3, ''a''), (2, ''c'')] initial_set)
     = [(1, ''a''), (2, ''b''), (2, ''c'')]
   \<and> first_occurrences snd [(1::int, ''a''), (2, ''b''), (3, ''a''), (2, ''c'')]
     = [(1, ''a''), (2, ''b''), (2, ''c'')]
   \<and> fst (getUniqueBookings snd [(1::int, ''a''), (2, ''b''), (2, ''c'')] initial_set)
     = [(1, ''a''), (2, ''b''), (2, ''c'')]"
proof -
  let ?arr = "[(1::int, ''a''), (2, ''b''), (3, ''a''), (2, ''c'')]"
  have v: "fst (getUniqueBookings snd ?arr initial_set) = [(1, ''a''), (2, ''b''), (2, ''c'')]"
    by (simp add: getUniqueBookings_def initial_set_def unique_callback_def)
  have "fst (getUniqueBookings snd ?arr initial_set) = first_occurrences snd ?arr"
    and "fst (getUniqueBookings snd (fst (getUniqueBookings snd ?arr initial_set)) initial_set)
           = fst (getUniqueBookings snd ?arr initial_set)"
    using dedup_first_occurrence_idempotent [of snd ?arr] by blast+
  then show ?thesis
    unfolding v by simp
qed

subsection \<open>The status filters\<close>

lemma matches_upcoming:
  "matches p (bookingListingFilters now upcoming) b =
     (now \<le> endTime b
      \<and> ((recurringEventId b \<noteq> None \<and> status b = ACCEPTED)
         \<or> (recurringEventId b = None \<and> status b \<notin> {CANCELLED, REJECTED})))"
  by (simp add: matches_def)

lemma matches_recurring:
  "matches p (bookingListingFilters now recurring) b =
     (now \<le> endTime b \<and> recurringEventId b \<noteq> None \<and> status b \<notin> {CANCELLED, REJECTED})"
  by (simp add: matches_def)

lemma matches_past:
  "matches p (bookingListingFilters now past) b =
     (endTime b \<le> now \<and> status b \<notin> {CANCELLED, REJECTED})"
  by (simp add: matches_def)

lemma matches_cancelled:
  "matches p (bookingListingFilters now cancelled) b = (status b \<in> {CANCELLED, REJECTED})"
  by (simp add: matches_def)

lemma matches_unconfirmed:
  "matches p (bookingListingFilters now unconfirmed) b = (now \<le> endTime b \<and> status b = PENDING)"
  by (simp add: matches_def)

text \<open>
  C1. For each of the five status tags, the where-input that \<open>getHandler\<close> passes on
  selects exactly the rows of the table of the specification, and the ordering is the one
  of the table: ascending start time for \<open>upcoming\<close>, \<open>recurring\<close> and \<open>unconfirmed\<close>,
  descending for \<open>past\<close> and \<open>cancelled\<close>.
\<close>

theorem status_filters_match_table:
  "matches p (bookingListingFilters now upcoming) b =
     (now \<le> endTime b
      \<and> ((recurringEventId b \<noteq> None \<and> status b = ACCEPTED)
         \<or> (recurringEventId b = None \<and> status b \<notin> {CANCELLED, REJECTED})))
   \<and> bookingListingOrderby upcoming = orderBy_startTime asc
   \<and> matches p (bookingListingFilters now recurring) b =
     (now \<le> endTime b \<and> recurringEventId b \<noteq> None \<and> status b \<notin> {CANCELLED, REJECTED})
   \<and> bookingListingOrderby recurring = orderBy_startTime asc
   \<and> matches p (bookingListingFilters now past) b =
     (endTime b \<le> now \<and> status b \<notin> {CANCELLED, REJECTED})
   \<and> bookingListingOrderby past = orderBy_startTime desc
   \<and> matches p (bookingListingFilters now cancelled) b = (status b \<in> {CANCELLED, REJECTED})
   \<and> bookingListingOrderby cancelled = orderBy_startTime desc
   \<and> matches p (bookingListingFilters now unconfirmed) b = (now \<le> endTime b \<and> status b = PENDING)
   \<and> bookingListingOrderby unconfirmed = orderBy_startTime asc"
  unfolding matches_upcoming matches_recurring matches_past matches_cancelled matches_unconfirmed
  by simp

text \<open>
  An accepted occurrence of a series that ends after \<open>now = 50\<close> is selected by
  \<open>upcoming\<close> and by \<open>recurring\<close> (the two windows overlap), and by no other tag.
\<close>

theorem status_filters_match_table_witness:
  "matches scenario_E (bookingListingFilters 50 upcoming)
     (a_booking 1 ''e1'' (Some 1) None 100 150 ACCEPTED (Some ''series'') [] [])
   \<and> matches scenario_E (bookingListingFilters 50 recurring)
     (a_booking 1 ''e1'' (Some 1) None 100 150 ACCEPTED (Some ''series'') [] [])
   \<and> \<not> matches scenario_E (bookingListingFilters 50 past)
     (a_booking 1 ''e1'' (Some 1) None 100 150 ACCEPTED (Some ''series'') [] [])
   \<and> \<not> matches scenario_E (bookingListingFilters 50 cancelled)
     (a_booking 1 ''e1'' (Some 1) None 100 150 ACCEPTED (Some ''series'') [] [])
   \<and> \<not> matches scenario_E (bookingListingFilters 50 unconfirmed)
     (a_booking 1 ''e1'' (Some 1) None 100 150 ACCEPTED (Some ''series'') [] [])"
  using status_filters_match_table
    [of scenario_E 50 "a_booking 1 ''e1'' (Some 1) None 100 150 ACCEPTED (Some ''series'') [] []"]
  by (simp add: a_booking_def)

subsection \<open>The recurring-series summary\<close>

lemma push_bucket_ok:
  assumes "distinct (map fst prev)" and "st \<in> fst ` set prev"
  shows "push_bucket prev st t = Inr (map (\<lambda>(k, v). (k, if k = st then v @ [t] else v)) prev)"
proof -
  from assms(2) obtain ds where mem: "(st, ds) \<in> set prev"
    by auto
  with assms(1) have look: "map_of prev st = Some ds"
    by simp
  have "map (\<lambda>(k, v). if k = st then (k, ds @ [t]) else (k, v)) prev
      = map (\<lambda>(k, v). (k, if k = st then v @ [t] else v)) prev"
  proof (rule map_cong [OF refl])
    fix x assume x: "x \<in> set prev"
    obtain k v where kv: "x = (k, v)" by (cases x)
    show "(case x of (k, v) \<Rightarrow> if k = st then (k, ds @ [t]) else (k, v))
        = (case x of (k, v) \<Rightarrow> (k, if k = st then v @ [t] else v))"
    proof (cases "k = st")
      case True
      with x kv assms(1) mem have "v = ds"
        by (metis eq_key_imp_eq_value)
      with True kv show ?thesis by simp
    next
      case False
      with kv show ?thesis by simp
    qed
  qed
  with look show ?thesis
    by (simp add: push_bucket_def)
qed

lemma reduce_buckets:
  assumes "distinct (map fst prev)" and "\<forall>row \<in> set extended. ext_status row \<in> fst ` set prev"
  shows "reduce (reduce_callback info) extended prev =
     Inr (map (\<lambda>(k, v). (k, v @ map ext_startTime
              (filter (\<lambda>row. ext_recurringEventId row = basic_recurringEventId info \<and> ext_status row = k) extended)))
            prev)"
  using assms
proof (induction extended arbitrary: prev)
  case Nil
  then show ?case by (simp add: case_prod_unfold)
next
  case (Cons row rows)
  let ?step = "map (\<lambda>(k, v). (k, if k = ext_status row then v @ [ext_startTime row] else v)) prev"
  show ?case
  proof (cases "ext_recurringEventId row = basic_recurringEventId info")
    case True
    have st: "reduce_callback info prev row = Inr ?step"
      using True Cons.prems by (simp add: reduce_callback_def push_bucket_ok)
    have keys: "map fst ?step = map fst prev"
      by (simp add: case_prod_unfold comp_def)
    have d: "distinct (map fst ?step)"
      unfolding keys using Cons.prems(1) .
    have "fst ` set ?step = fst ` set prev"
      using keys by (metis list.set_map)
    with Cons.prems(2) have m: "\<forall>r \<in> set rows. ext_status r \<in> fst ` set ?step"
      by simp
    have "reduce (reduce_callback info) rows ?step =
       Inr (map (\<lambda>(k, v). (k, v @ map ext_startTime
              (filter (\<lambda>row. ext_recurringEventId row = basic_recurringEventId info \<and> ext_status row = k) rows)))
            ?step)"
      using d m by (rule Cons.IH)
    then show ?thesis
      using True st by (simp add: case_prod_unfold comp_def)
  next
    case False
    have st: "reduce_callback info prev row = Inr prev"
      using False by (simp add: reduce_callback_def)
    have "reduce (reduce_callback info) rows prev =
       Inr (map (\<lambda>(k, v). (k, v @ map ext_startTime
              (filter (\<lambda>row. ext_recurringEventId row = basic_recurringEventId info \<and> ext_status row = k) rows)))
            prev)"
    proof (rule Cons.IH)
      show "distinct (map fst prev)" using Cons.prems(1) .
      show "\<forall>r \<in> set rows. ext_status r \<in> fst ` set prev" using Cons.prems(2) by simp
    qed
    then show ?thesis
      using False st by simp
  qed
qed

lemma every_status: "st \<in> fst ` set empty_buckets"
  by (cases st) (simp_all add: empty_buckets_def)

lemma recurringInfo_callback_eq:
  "recurringInfo_callback extended info = Inr (summary_of extended info)"
proof -
  have d: "distinct (map fst empty_buckets)"
    by (simp add: empty_buckets_def)
  have "reduce (reduce_callback info) extended empty_buckets =
     Inr (map (\<lambda>(k, v). (k, v @ map ext_startTime
              (filter (\<lambda>row. ext_recurringEventId row = basic_recurringEventId info \<and> ext_status row = k) extended)))
            empty_buckets)"
    using d every_status by (intro reduce_buckets) blast+
  then show ?thesis
    by (simp add: recurringInfo_callback_def summary_of_def empty_buckets_def)
qed

lemma map_throwing_total: "(\<And>x. f x = Inr (g x)) \<Longrightarrow> map_throwing f xs = Inr (map g xs)"
  by (induction xs) simp_all

lemma recurringInfo_eq: "recurringInfo basic extended = Inr (map (summary_of extended) basic)"
  unfolding recurringInfo_def by (rule map_throwing_total) (rule recurringInfo_callback_eq)

subsection \<open>The queries and the pipeline of \<open>getBookings\<close>\<close>

lemma and_then_Inr: "and_then r k = Inr y \<longleftrightarrow> (\<exists>x. r = Inr x \<and> k x = Inr y)"
  by (cases r) (simp_all add: and_then_def)


lemma set_order_rows: "set (order_rows ob rows) = set rows"
  by (cases "(ob, rows)" rule: order_rows.cases) simp_all

lemma length_order_rows: "length (order_rows ob rows) = length rows"
  by (cases "(ob, rows)" rule: order_rows.cases) simp_all

lemma distinct_order_rows: "distinct (order_rows ob rows) = distinct rows"
  by (cases "(ob, rows)" rule: order_rows.cases) simp_all

lemma filter_order_rows: "filter P (order_rows ob rows) = order_rows ob (filter P rows)"
  by (cases "(ob, rows)" rule: order_rows.cases) (simp_all add: filter_sort)

lemma findMany_Inr:
  "findMany p q wh ob tk sk = Inr rows \<longleftrightarrow>
     rejects p q = None \<and>
     rows = (let ordered = order_rows ob (filter (matches p wh) (booking_table p));
                 skipped = (case sk of None \<Rightarrow> ordered | Some n \<Rightarrow> drop n ordered)
             in (case tk of None \<Rightarrow> skipped | Some n \<Rightarrow> take n skipped))"
  by (auto simp: findMany_def split: option.splits)


lemma findMany_subset:
  assumes "findMany p q wh ob tk sk = Inr rows"
  shows "set rows \<subseteq> {b \<in> set (booking_table p). matches p wh b}"
proof -
  let ?all = "order_rows ob (filter (matches p wh) (booking_table p))"
  have "set rows \<subseteq> set ?all"
    using assms unfolding findMany_Inr
    by (auto simp: Let_def split: option.splits dest: in_set_takeD in_set_dropD)
  then show ?thesis
    by (simp add: set_order_rows subset_iff)
qed



lemma parallel_queries_Inr:
  "parallel_queries p u passed fs ob tk sk = Inr (q1, q2, q3, q4, q5, basic, extended) \<longleftrightarrow>
     findMany p bookingsQueryUserId (where_bookingsQueryUserId u passed (filtersCombined fs))
       ob (Some (tk + 1)) (Some sk) = Inr q1
   \<and> findMany p bookingsQueryAttendees (where_bookingsQueryAttendees u passed (filtersCombined fs))
       ob (Some (tk + 1)) (Some sk) = Inr q2
   \<and> findMany p bookingsQueryTeamEvents (where_bookingsQueryTeamEvents u passed (filtersCombined fs))
       ob (Some (tk + 1)) (Some sk) = Inr q3
   \<and> findMany p bookingsQueryTeamUsersPersonalEvents
       (where_bookingsQueryTeamUsersPersonalEvents u passed (filtersCombined fs))
       ob (Some (tk + 1)) (Some sk) = Inr q4
   \<and> findMany p bookingsQuerySeatReference (where_bookingsQuerySeatReference u passed (filtersCombined fs))
       ob (Some (tk + 1)) (Some sk) = Inr q5
   \<and> groupBy_recurringEventId p recurringInfoBasic (where_recurringInfo u) = Inr basic
   \<and> groupBy_recurringEventId_status_startTime p recurringInfoExtended (where_recurringInfo u) = Inr extended"
  unfolding parallel_queries_def Let_def and_then_Inr by auto

lemma map_throwing_Inr:
  "map_throwing f xs = Inr ys \<Longrightarrow> list_all2 (\<lambda>x y. f x = Inr y) xs ys"
  by (induction xs arbitrary: ys) (auto split: sum.splits)


text \<open>What a successful call of \<open>getBookings\<close> went through.\<close>

lemma getBookings_unfold:
  "getBookings ps p u passed fs ob tk sk s =
     (case parallel_queries p u passed fs ob tk sk of
        Inl e \<Rightarrow> (Inl e, s)
      | Inr (q1, q2, q3, q4, q5, basic, extended) \<Rightarrow>
          (case recurringInfo basic extended of
             Inl e \<Rightarrow> (Inl e, s)
           | Inr infos \<Rightarrow>
               (case findMany p enrichmentQuery
                       [Booking_id (int_in (map booking_id
                          (fst (getUniqueBookings uid (q1 @ q2 @ q3 @ q4 @ q5) s))))]
                       ob None None of
                  Inl e \<Rightarrow> (Inl e, {})
                | Inr rows \<Rightarrow>
                    (case map_throwing (enrich ps u) (map (bookingSelect p u) rows) of
                       Inl e \<Rightarrow> (Inl e, {})
                     | Inr bs \<Rightarrow> (Inr \<lparr> result_bookings = bs, result_recurringInfo = infos \<rparr>, {})))))"
  by (simp add: getBookings_def getUniqueBookings_eq split: sum.splits prod.splits)

lemma getBookings_Inr:
  assumes "getBookings ps p u passed fs ob tk sk s = (Inr r, s')"
  obtains q1 q2 q3 q4 q5 basic extended rows where
    "parallel_queries p u passed fs ob tk sk = Inr (q1, q2, q3, q4, q5, basic, extended)"
    "recurringInfo basic extended = Inr (result_recurringInfo r)"
    "findMany p enrichmentQuery
       [Booking_id (int_in (map booking_id (fst (getUniqueBookings uid (q1 @ q2 @ q3 @ q4 @ q5) s))))]
       ob None None = Inr rows"
    "map_throwing (enrich ps u) (map (bookingSelect p u) rows) = Inr (result_bookings r)"
    "s' = {}"
proof -
  from assms obtain res where pq: "parallel_queries p u passed fs ob tk sk = Inr res"
    unfolding getBookings_unfold by (auto split: sum.splits)
  obtain q1 q2 q3 q4 q5 basic extended where res: "res = (q1, q2, q3, q4, q5, basic, extended)"
    by (cases res) auto
  note a = assms [unfolded getBookings_unfold pq res, simplified]
  from a obtain infos where ri: "recurringInfo basic extended = Inr infos"
    by (auto split: sum.splits)
  note b = a [unfolded ri, simplified]
  from b obtain rows where
    fm: "findMany p enrichmentQuery
       [Booking_id (int_in (map booking_id (fst (getUniqueBookings uid (q1 @ q2 @ q3 @ q4 @ q5) s))))]
       ob None None = Inr rows"
    by (auto split: sum.splits)
  note c = b [unfolded fm, simplified]
  from c obtain bs where
    mt: "map_throwing (enrich ps u) (map (bookingSelect p u) rows) = Inr bs"
    by (auto split: sum.splits)
  note d = c [unfolded mt, simplified]
  from d have "result_bookings r = bs" and "result_recurringInfo r = infos" and "s' = {}"
    by auto
  with pq res ri fm mt that show thesis
    by simp
qed

lemma getHandler_unfold:
  "getHandler ps now p u input s =
     (case getBookings ps p u (bookingListingFilters now (filter_status (filters input))) (filters input)
             (bookingListingOrderby (filter_status (filters input))) (take_of input) (skip_of input) s of
        (Inl e, s') \<Rightarrow> (Inl e, s')
      | (Inr g, s') \<Rightarrow>
          (Inr \<lparr> bookings = result_bookings g,
                  recurringInfo_of = result_recurringInfo g,
                  nextCursor = (if length (result_bookings g) > take_of input
                                then Some (skip_of input + length (result_bookings g)) else None) \<rparr>, s'))"
  by (simp add: getHandler_def take_of_def skip_of_def Let_def split: prod.splits sum.splits)

lemma getHandler_Inr:
  assumes "getHandler ps now p u input s = (Inr r, s')"
  obtains g where
    "getBookings ps p u (bookingListingFilters now (filter_status (filters input))) (filters input)
       (bookingListingOrderby (filter_status (filters input))) (take_of input) (skip_of input) s = (Inr g, s')"
    "bookings r = result_bookings g"
    "recurringInfo_of r = result_recurringInfo g"
    "nextCursor r =
       (if length (result_bookings g) > take_of input
        then Some (skip_of input + length (result_bookings g)) else None)"
proof -
  let ?call = "getBookings ps p u (bookingListingFilters now (filter_status (filters input))) (filters input)
       (bookingListingOrderby (filter_status (filters input))) (take_of input) (skip_of input) s"
  obtain res s'' where c: "?call = (res, s'')"
    by (cases ?call)
  note a = assms [unfolded getHandler_unfold c, simplified]
  from a obtain g where g: "res = Inr g"
    by (cases res) auto
  note b = a [unfolded g, simplified]
  from b have "s'' = s'" and "bookings r = result_bookings g" and "recurringInfo_of r = result_recurringInfo g"
    and "nextCursor r =
       (if length (result_bookings g) > take_of input
        then Some (skip_of input + length (result_bookings g)) else None)"
    by auto
  with c g that show thesis
    by blast
qed

text \<open>What redaction and normalisation keep of a selected booking.\<close>

lemma enrich_Inr:
  assumes "enrich ps u sb = Inr rb"
  shows "b_id rb = b_id sb" and "b_uid rb = b_uid sb"
    and "b_seatsReferences rb = b_seatsReferences sb"
    and "b_attendees rb = b_attendees (redact_attendees u sb)"
    and "response_seatsShowAttendees (b_eventType rb) = Option.bind (b_eventType sb) selected_seatsShowAttendees"
  using assms
  by (auto simp: enrich_def normalise_def redact_attendees_def Let_def split: sum.splits if_splits)

text \<open>Every booking of a response comes from a row of the enrichment query.\<close>

lemma list_all2_in_set2:
  "list_all2 P xs ys \<Longrightarrow> y \<in> set ys \<Longrightarrow> \<exists>x \<in> set xs. P x y"
  by (induction rule: list_all2_induct) auto

lemma enrichment_rows:
  assumes "findMany p enrichmentQuery wh ob None None = Inr rows"
  shows "rows = order_rows ob (filter (matches p wh) (booking_table p))"
  using assms unfolding findMany_Inr by simp

lemma getBookings_booking_origin:
  assumes "getBookings ps p u passed fs ob tk sk s = (Inr g, s')" and "rb \<in> set (result_bookings g)"
  obtains row where "row \<in> set (booking_table p)" and "enrich ps u (bookingSelect p u row) = Inr rb"
proof -
  from assms(1) obtain q1 q2 q3 q4 q5 :: "Booking list" and rows where
    fm: "findMany p enrichmentQuery
       [Booking_id (int_in (map booking_id (fst (getUniqueBookings uid (q1 @ q2 @ q3 @ q4 @ q5) s))))]
       ob None None = Inr rows"
    and mt: "map_throwing (enrich ps u) (map (bookingSelect p u) rows) = Inr (result_bookings g)"
    by (rule getBookings_Inr)
  from mt have "list_all2 (\<lambda>x y. enrich ps u x = Inr y) (map (bookingSelect p u) rows) (result_bookings g)"
    by (rule map_throwing_Inr)
  from list_all2_in_set2 [OF this assms(2)]
  obtain x where "x \<in> set (map (bookingSelect p u) rows)" and e: "enrich ps u x = Inr rb"
    by blast
  then obtain row where row: "row \<in> set rows" and x: "x = bookingSelect p u row"
    by auto
  from findMany_subset [OF fm] row have "row \<in> set (booking_table p)"
    by blast
  with e x that show thesis
    by blast
qed

lemma response_booking_origin:
  assumes "getHandler ps now p u input s = (Inr r, s')" and "rb \<in> set (bookings r)"
  obtains row where "row \<in> set (booking_table p)" and "enrich ps u (bookingSelect p u row) = Inr rb"
proof -
  from assms(1) obtain g where
    g: "getBookings ps p u (bookingListingFilters now (filter_status (filters input))) (filters input)
       (bookingListingOrderby (filter_status (filters input))) (take_of input) (skip_of input) s = (Inr g, s')"
    and bs: "bookings r = result_bookings g"
    by (rule getHandler_Inr)
  from assms(2) bs have "rb \<in> set (result_bookings g)"
    by simp
  from getBookings_booking_origin [OF g this] that show thesis
    by blast
qed

lemma select_seatsReferences_eq:
  "select_seatsReferences u seats =
     map (\<lambda>s. \<lparr> selected_referenceUid = referenceUid s,
                 selected_attendee_email = attendee_email (seat_attendee s) \<rparr>)
       (filter (\<lambda>s. attendee_email (seat_attendee s) = session_user_email u) seats)"
  by (simp add: select_seatsReferences_def)

lemma filter_key_distinct:
  "distinct (map f xs) \<Longrightarrow> x \<in> set xs \<Longrightarrow> filter (\<lambda>y. f y = f x) xs = [x]"
proof (induction xs)
  case Nil
  then show ?case by simp
next
  case (Cons a xs)
  show ?case
  proof (cases "a = x")
    case True
    with Cons.prems(1) have "\<forall>y \<in> set xs. f y \<noteq> f x"
      by (auto simp: image_iff)
    then have "filter (\<lambda>y. f y = f x) xs = []"
      by (simp add: filter_empty_conv)
    with True show ?thesis by simp
  next
    case False
    with Cons.prems have x: "x \<in> set xs" and d: "distinct (map f xs)" and "f a \<noteq> f x"
      by (auto simp: image_iff)
    with Cons.IH show ?thesis by simp
  qed
qed

lemma parallel_queries_subset:
  assumes "parallel_queries p u passed fs ob tk sk = Inr (q1, q2, q3, q4, q5, basic, extended)"
  shows "set (q1 @ q2 @ q3 @ q4 @ q5) \<subseteq> set (booking_table p)"
proof -
  note q = assms [unfolded parallel_queries_Inr]
  from q have "set q1 \<subseteq> set (booking_table p)"
    using findMany_subset by blast
  moreover from q have "set q2 \<subseteq> set (booking_table p)"
    using findMany_subset by blast
  moreover from q have "set q3 \<subseteq> set (booking_table p)"
    using findMany_subset by blast
  moreover from q have "set q4 \<subseteq> set (booking_table p)"
    using findMany_subset by blast
  moreover from q have "set q5 \<subseteq> set (booking_table p)"
    using findMany_subset by blast
  ultimately show ?thesis
    by simp
qed

lemma matches_id_in: "matches p [Booking_id (int_in ids)] b = (booking_id b \<in> set ids)"
  by (simp add: matches_def)

lemma enriched_uids:
  assumes "map_throwing (enrich ps u) (map (bookingSelect p u) rows) = Inr bs"
  shows "map b_uid bs = map uid rows"
proof -
  from assms have "list_all2 (\<lambda>x y. enrich ps u x = Inr y) (map (bookingSelect p u) rows) bs"
    by (rule map_throwing_Inr)
  then have "list_all2 (\<lambda>row y. b_uid y = uid row) rows bs"
    unfolding list_all2_map1
    by (rule list_all2_mono) (simp add: enrich_Inr(2) bookingSelect_def)
  then show ?thesis
    by (induction rule: list_all2_induct) simp_all
qed

text \<open>A row returned by one of the five visibility queries is a row of the enrichment query.\<close>

lemma visible_row_enriched:
  assumes d: "distinct (map uid (booking_table p))"
    and pq: "parallel_queries p u passed fs ob tk sk = Inr (q1, q2, q3, q4, q5, basic, extended)"
    and b: "b \<in> set (q1 @ q2 @ q3 @ q4 @ q5)"
  shows "booking_id b \<in> set (map booking_id (fst (getUniqueBookings uid (q1 @ q2 @ q3 @ q4 @ q5) {})))"
proof -
  let ?all = "q1 @ q2 @ q3 @ q4 @ q5"
  let ?plain = "fst (getUniqueBookings uid ?all {})"
  have sub: "set ?all \<subseteq> set (booking_table p)"
    using pq by (rule parallel_queries_subset)
  have "uid ` set ?plain = uid ` set ?all"
    by (simp add: getUniqueBookings_eq uids_filter_with_set)
  moreover from b have "uid b \<in> uid ` set ?all"
    by (rule imageI)
  ultimately have "uid b \<in> uid ` set ?plain"
    by simp
  then obtain b' where b': "b' \<in> set ?plain" and same: "uid b' = uid b"
    by (auto simp: image_iff)
  have "set ?plain \<subseteq> set ?all"
    unfolding getUniqueBookings_eq fst_conv by (rule set_filter_with_set)
  with b' sub have "b' \<in> set (booking_table p)"
    by blast
  moreover from b sub have "b \<in> set (booking_table p)"
    by blast
  moreover from d have "inj_on uid (set (booking_table p))"
    by (simp add: distinct_map)
  ultimately have "b' = b"
    using same by (meson inj_onD)
  with b' show ?thesis
    by auto
qed

lemma getBookings_once:
  assumes d: "distinct (map uid (booking_table p))"
    and g: "getBookings ps p u passed fs ob tk sk {} = (Inr r, s')"
    and pq: "parallel_queries p u passed fs ob tk sk = Inr (q1, q2, q3, q4, q5, basic, extended)"
    and b: "b \<in> set (q1 @ q2 @ q3 @ q4 @ q5)"
  shows "length (filter (\<lambda>x. b_uid x = uid b) (result_bookings r)) = 1"
proof -
  let ?all = "q1 @ q2 @ q3 @ q4 @ q5"
  let ?ids = "map booking_id (fst (getUniqueBookings uid ?all {}))"
  from g obtain q1' q2' q3' q4' q5' basic' extended' rows where
    pq': "parallel_queries p u passed fs ob tk sk = Inr (q1', q2', q3', q4', q5', basic', extended')"
    and fm': "findMany p enrichmentQuery
       [Booking_id (int_in (map booking_id (fst (getUniqueBookings uid (q1' @ q2' @ q3' @ q4' @ q5') {}))))]
       ob None None = Inr rows"
    and mt: "map_throwing (enrich ps u) (map (bookingSelect p u) rows) = Inr (result_bookings r)"
    by (rule getBookings_Inr)
  from pq pq' have "q1' = q1" "q2' = q2" "q3' = q3" "q4' = q4" "q5' = q5"
    by simp_all
  with fm' have fm: "findMany p enrichmentQuery [Booking_id (int_in ?ids)] ob None None = Inr rows"
    by simp
  have rows: "rows = order_rows ob (filter (matches p [Booking_id (int_in ?ids)]) (booking_table p))"
    using fm by (rule enrichment_rows)
  have bt: "b \<in> set (booking_table p)"
    using parallel_queries_subset [OF pq] b by blast
  have m: "matches p [Booking_id (int_in ?ids)] b"
    unfolding matches_id_in using d pq b by (rule visible_row_enriched)
  have "filter (\<lambda>x. uid x = uid b) rows
      = order_rows ob (filter (matches p [Booking_id (int_in ?ids)]) (filter (\<lambda>x. uid x = uid b) (booking_table p)))"
    unfolding rows filter_order_rows by (simp add: conj_commute)
  also have "filter (\<lambda>x. uid x = uid b) (booking_table p) = [b]"
    using d bt by (rule filter_key_distinct)
  finally have one: "length (filter (\<lambda>x. uid x = uid b) rows) = 1"
    using m by (simp add: length_order_rows)
  have "length (filter (\<lambda>x. b_uid x = uid b) (result_bookings r))
      = length (filter (\<lambda>k. k = uid b) (map b_uid (result_bookings r)))"
    by (simp add: filter_map comp_def)
  also have "\<dots> = length (filter (\<lambda>k. k = uid b) (map uid rows))"
    using enriched_uids [OF mt] by simp
  also have "\<dots> = length (filter (\<lambda>x. uid x = uid b) rows)"
    by (simp add: filter_map comp_def)
  finally show ?thesis
    using one by simp
qed

lemma matches_where_recurringInfo:
  "matches p (where_recurringInfo u) b =
     (userId b = Some (session_user_id u) \<and> recurringEventId b \<noteq> None)"
  by (auto simp: matches_def where_recurringInfo_def)

lemma groupBy_basic_owner_only:
  assumes "filter (\<lambda>b. userId b = Some (session_user_id u) \<and> recurringEventId b \<noteq> None) (booking_table p)
         = filter (\<lambda>b. userId b = Some (session_user_id u) \<and> recurringEventId b \<noteq> None) (booking_table p')"
    and "groupBy_recurringEventId p q (where_recurringInfo u) = Inr basic"
    and "groupBy_recurringEventId p' q' (where_recurringInfo u) = Inr basic'"
  shows "basic = basic'"
proof -
  have m: "matches p (where_recurringInfo u) = matches p' (where_recurringInfo u)"
    by (rule ext) (simp add: matches_where_recurringInfo)
  have "filter (matches p (where_recurringInfo u)) (booking_table p)
      = filter (matches p' (where_recurringInfo u)) (booking_table p')"
    using assms(1) by (simp add: matches_where_recurringInfo [abs_def])
  with assms(2,3) show ?thesis
    by (auto simp: groupBy_recurringEventId_def split: option.splits)
qed

lemma groupBy_extended_owner_only:
  assumes "filter (\<lambda>b. userId b = Some (session_user_id u) \<and> recurringEventId b \<noteq> None) (booking_table p)
         = filter (\<lambda>b. userId b = Some (session_user_id u) \<and> recurringEventId b \<noteq> None) (booking_table p')"
    and "groupBy_recurringEventId_status_startTime p q (where_recurringInfo u) = Inr extended"
    and "groupBy_recurringEventId_status_startTime p' q' (where_recurringInfo u) = Inr extended'"
  shows "extended = extended'"
proof -
  have "filter (matches p (where_recurringInfo u)) (booking_table p)
      = filter (matches p' (where_recurringInfo u)) (booking_table p')"
    using assms(1) by (simp add: matches_where_recurringInfo [abs_def])
  with assms(2,3) show ?thesis
    by (auto simp: groupBy_recurringEventId_status_startTime_def split: option.splits)
qed

text \<open>The summary of a successful call, from the results of the two aggregate queries.\<close>

lemma getHandler_recurringInfo:
  assumes "getHandler ps now p u input s = (Inr r, s')"
  obtains basic extended where
    "groupBy_recurringEventId p recurringInfoBasic (where_recurringInfo u) = Inr basic"
    "groupBy_recurringEventId_status_startTime p recurringInfoExtended (where_recurringInfo u) = Inr extended"
    "recurringInfo_of r = map (summary_of extended) basic"
proof -
  from assms obtain g where
    g: "getBookings ps p u (bookingListingFilters now (filter_status (filters input))) (filters input)
       (bookingListingOrderby (filter_status (filters input))) (take_of input) (skip_of input) s = (Inr g, s')"
    and ri: "recurringInfo_of r = result_recurringInfo g"
    by (rule getHandler_Inr)
  from g obtain q1 q2 q3 q4 q5 basic extended where
    pq: "parallel_queries p u (bookingListingFilters now (filter_status (filters input))) (filters input)
       (bookingListingOrderby (filter_status (filters input))) (take_of input) (skip_of input)
         = Inr (q1, q2, q3, q4, q5, basic, extended)"
    and c: "recurringInfo basic extended = Inr (result_recurringInfo g)"
    by (rule getBookings_Inr)
  from c have "result_recurringInfo g = map (summary_of extended) basic"
    by (simp add: recurringInfo_eq)
  with ri pq [unfolded parallel_queries_Inr] that show thesis
    by simp
qed



lemma groupBy_basic_ok: "rejects p q = None \<Longrightarrow> \<exists>rows. groupBy_recurringEventId p q wh = Inr rows"
  by (simp add: groupBy_recurringEventId_def)

lemma groupBy_extended_ok:
  "rejects p q = None \<Longrightarrow> \<exists>rows. groupBy_recurringEventId_status_startTime p q wh = Inr rows"
  by (simp add: groupBy_recurringEventId_status_startTime_def)








lemma length_filter_mono:
  "(\<And>x. x \<in> set xs \<Longrightarrow> P x \<Longrightarrow> Q x) \<Longrightarrow> length (filter P xs) \<le> length (filter Q xs)"
proof (induction xs)
  case Nil
  then show ?case by simp
next
  case (Cons x xs)
  then have "length (filter P xs) \<le> length (filter Q xs)"
    by simp
  with Cons.prems [of x] show ?case
    by auto
qed

lemma findMany_whole:
  assumes "findMany p q wh ob (Some n) (Some 0) = Inr rows"
    and "length (filter (matches p wh) (booking_table p)) \<le> n"
  shows "set rows = {b \<in> set (booking_table p). matches p wh b}"
proof -
  from assms(1) have "rows = take n (order_rows ob (filter (matches p wh) (booking_table p)))"
    unfolding findMany_Inr by simp
  with assms(2) have "rows = order_rows ob (filter (matches p wh) (booking_table p))"
    by (simp add: length_order_rows)
  then show ?thesis
    by (simp add: set_order_rows)
qed

lemma findMany_beyond:
  assumes "findMany p q wh ob tk (Some k) = Inr rows"
    and "length (filter (matches p wh) (booking_table p)) \<le> k"
  shows "rows = []"
proof -
  from assms(2) have "drop k (order_rows ob (filter (matches p wh) (booking_table p))) = []"
    by (simp add: length_order_rows)
  with assms(1) show ?thesis
    unfolding findMany_Inr by (cases tk) simp_all
qed

lemma getUniqueBookings_set:
  assumes "inj_on uid_of (set arr)"
  shows "set (fst (getUniqueBookings uid_of arr {})) = set arr"
proof
  show sub: "set (fst (getUniqueBookings uid_of arr {})) \<subseteq> set arr"
    unfolding getUniqueBookings_eq fst_conv by (rule set_filter_with_set)
  show "set arr \<subseteq> set (fst (getUniqueBookings uid_of arr {}))"
  proof
    fix b assume b: "b \<in> set arr"
    have "uid_of ` set (fst (getUniqueBookings uid_of arr {})) = uid_of ` set arr"
      by (simp add: getUniqueBookings_eq uids_filter_with_set)
    moreover from b have "uid_of b \<in> uid_of ` set arr"
      by (rule imageI)
    ultimately have "uid_of b \<in> uid_of ` set (fst (getUniqueBookings uid_of arr {}))"
      by simp
    then obtain b' where b': "b' \<in> set (fst (getUniqueBookings uid_of arr {}))" and same: "uid_of b' = uid_of b"
      by (auto simp: image_iff)
    from b' sub have "b' \<in> set arr"
      by (rule subsetD [rotated])
    with assms b same have "b' = b"
      by (meson inj_onD)
    with b' show "b \<in> set (fst (getUniqueBookings uid_of arr {}))"
      by simp
  qed
qed


text \<open>The five visibility queries when the matching bookings fit on the first page.\<close>

lemma visible_matching_set:
  "set (visible_matching now p u input) =
     {b \<in> set (booking_table p).
        matches p (where_bookingsQueryUserId u (bookingListingFilters now (filter_status (filters input)))
                     (filtersCombined (filters input))) b
      \<or> matches p (where_bookingsQueryAttendees u (bookingListingFilters now (filter_status (filters input)))
                     (filtersCombined (filters input))) b
      \<or> matches p (where_bookingsQueryTeamEvents u (bookingListingFilters now (filter_status (filters input)))
                     (filtersCombined (filters input))) b
      \<or> matches p (where_bookingsQueryTeamUsersPersonalEvents u
                     (bookingListingFilters now (filter_status (filters input)))
                     (filtersCombined (filters input))) b
      \<or> matches p (where_bookingsQuerySeatReference u (bookingListingFilters now (filter_status (filters input)))
                     (filtersCombined (filters input))) b}"
  by (simp add: visible_matching_def Let_def)

lemma visible_matching_bounds:
  "length (filter (matches p (where_bookingsQueryUserId u (bookingListingFilters now (filter_status (filters input)))
       (filtersCombined (filters input)))) (booking_table p)) \<le> length (visible_matching now p u input)"
  "length (filter (matches p (where_bookingsQueryAttendees u (bookingListingFilters now (filter_status (filters input)))
       (filtersCombined (filters input)))) (booking_table p)) \<le> length (visible_matching now p u input)"
  "length (filter (matches p (where_bookingsQueryTeamEvents u (bookingListingFilters now (filter_status (filters input)))
       (filtersCombined (filters input)))) (booking_table p)) \<le> length (visible_matching now p u input)"
  "length (filter (matches p (where_bookingsQueryTeamUsersPersonalEvents u
       (bookingListingFilters now (filter_status (filters input)))
       (filtersCombined (filters input)))) (booking_table p)) \<le> length (visible_matching now p u input)"
  "length (filter (matches p (where_bookingsQuerySeatReference u (bookingListingFilters now (filter_status (filters input)))
       (filtersCombined (filters input)))) (booking_table p)) \<le> length (visible_matching now p u input)"
  unfolding visible_matching_def Let_def by (rule length_filter_mono, blast)+

lemma handler_queries_first_page:
  assumes q: "handler_queries now p u input = Inr (q1, q2, q3, q4, q5, basic, extended)"
    and sk: "skip_of input = 0"
    and few: "length (visible_matching now p u input) \<le> take_of input + 1"
  shows "set (q1 @ q2 @ q3 @ q4 @ q5) = set (visible_matching now p u input)"
proof -
  note f = q [unfolded handler_queries_def parallel_queries_Inr sk]
  note b = visible_matching_bounds [of p u now input, THEN order_trans, OF few]
  have "set q1 = {b \<in> set (booking_table p). matches p (where_bookingsQueryUserId u
      (bookingListingFilters now (filter_status (filters input))) (filtersCombined (filters input))) b}"
    using f b(1) by (intro findMany_whole) blast+
  moreover have "set q2 = {b \<in> set (booking_table p). matches p (where_bookingsQueryAttendees u
      (bookingListingFilters now (filter_status (filters input))) (filtersCombined (filters input))) b}"
    using f b(2) by (intro findMany_whole) blast+
  moreover have "set q3 = {b \<in> set (booking_table p). matches p (where_bookingsQueryTeamEvents u
      (bookingListingFilters now (filter_status (filters input))) (filtersCombined (filters input))) b}"
    using f b(3) by (intro findMany_whole) blast+
  moreover have "set q4 = {b \<in> set (booking_table p). matches p (where_bookingsQueryTeamUsersPersonalEvents u
      (bookingListingFilters now (filter_status (filters input))) (filtersCombined (filters input))) b}"
    using f b(4) by (intro findMany_whole) blast+
  moreover have "set q5 = {b \<in> set (booking_table p). matches p (where_bookingsQuerySeatReference u
      (bookingListingFilters now (filter_status (filters input))) (filtersCombined (filters input))) b}"
    using f b(5) by (intro findMany_whole) blast+
  ultimately show ?thesis
    unfolding visible_matching_set set_append by blast
qed

lemma handler_queries_beyond:
  assumes q: "handler_queries now p u input = Inr (q1, q2, q3, q4, q5, basic, extended)"
    and few: "length (visible_matching now p u input) \<le> skip_of input"
  shows "q1 @ q2 @ q3 @ q4 @ q5 = []"
proof -
  note f = q [unfolded handler_queries_def parallel_queries_Inr]
  note b = visible_matching_bounds [of p u now input, THEN order_trans, OF few]
  have "q1 = []"
    using f b(1) by (intro findMany_beyond) blast+
  moreover have "q2 = []"
    using f b(2) by (intro findMany_beyond) blast+
  moreover have "q3 = []"
    using f b(3) by (intro findMany_beyond) blast+
  moreover have "q4 = []"
    using f b(4) by (intro findMany_beyond) blast+
  moreover have "q5 = []"
    using f b(5) by (intro findMany_beyond) blast+
  ultimately show ?thesis
    by simp
qed


text \<open>What a successful call of the handler went through.\<close>

lemma getHandler_parts:
  assumes "getHandler ps now p u input s = (Inr r, s')"
  obtains q1 q2 q3 q4 q5 basic extended rows where
    "handler_queries now p u input = Inr (q1, q2, q3, q4, q5, basic, extended)"
    "rows = order_rows (bookingListingOrderby (filter_status (filters input)))
       (filter (\<lambda>b. booking_id b \<in> booking_id ` set (fst (getUniqueBookings uid (q1 @ q2 @ q3 @ q4 @ q5) s)))
          (booking_table p))"
    "map b_uid (bookings r) = map uid rows"
    "nextCursor r = (if take_of input < length (bookings r)
                     then Some (skip_of input + length (bookings r)) else None)"
proof -
  from assms obtain g where
    g: "getBookings ps p u (bookingListingFilters now (filter_status (filters input))) (filters input)
       (bookingListingOrderby (filter_status (filters input))) (take_of input) (skip_of input) s = (Inr g, s')"
    and bs: "bookings r = result_bookings g"
    and nc: "nextCursor r =
       (if length (result_bookings g) > take_of input
        then Some (skip_of input + length (result_bookings g)) else None)"
    by (rule getHandler_Inr)
  from g obtain q1 q2 q3 q4 q5 basic extended rows where
    pq: "parallel_queries p u (bookingListingFilters now (filter_status (filters input))) (filters input)
       (bookingListingOrderby (filter_status (filters input))) (take_of input) (skip_of input)
         = Inr (q1, q2, q3, q4, q5, basic, extended)"
    and fm: "findMany p enrichmentQuery
       [Booking_id (int_in (map booking_id (fst (getUniqueBookings uid (q1 @ q2 @ q3 @ q4 @ q5) s))))]
       (bookingListingOrderby (filter_status (filters input))) None None = Inr rows"
    and mt: "map_throwing (enrich ps u) (map (bookingSelect p u) rows) = Inr (result_bookings g)"
    by (rule getBookings_Inr)
  have 1: "handler_queries now p u input = Inr (q1, q2, q3, q4, q5, basic, extended)"
    unfolding handler_queries_def by (rule pq)
  have 2: "rows = order_rows (bookingListingOrderby (filter_status (filters input)))
       (filter (\<lambda>b. booking_id b \<in> booking_id ` set (fst (getUniqueBookings uid (q1 @ q2 @ q3 @ q4 @ q5) s)))
          (booking_table p))"
    using enrichment_rows [OF fm] by (simp add: matches_id_in [abs_def])
  have 3: "map b_uid (bookings r) = map uid rows"
    unfolding bs using mt by (rule enriched_uids)
  have 4: "nextCursor r = (if take_of input < length (bookings r)
                     then Some (skip_of input + length (bookings r)) else None)"
    unfolding bs by (rule nc)
  from 1 2 3 4 that show thesis
    by blast
qed

lemma filter_member_filter: "filter (\<lambda>x. x \<in> set (filter P xs)) xs = filter P xs"
  by (rule filter_cong) simp_all

lemma first_page_whole:
  assumes ids: "distinct (map booking_id (booking_table p))"
    and uids: "distinct (map uid (booking_table p))"
    and run: "getHandler ps now p u input {} = (Inr r, s')"
    and sk: "skip_of input = 0"
    and few: "length (visible_matching now p u input) \<le> take_of input + 1"
  shows "length (bookings r) = length (visible_matching now p u input)"
proof -
  let ?vis = "visible_matching now p u input"
  from run obtain q1 q2 q3 q4 q5 basic extended rows where
    q: "handler_queries now p u input = Inr (q1, q2, q3, q4, q5, basic, extended)"
    and rows: "rows = order_rows (bookingListingOrderby (filter_status (filters input)))
       (filter (\<lambda>b. booking_id b \<in> booking_id ` set (fst (getUniqueBookings uid (q1 @ q2 @ q3 @ q4 @ q5) {})))
          (booking_table p))"
    and m: "map b_uid (bookings r) = map uid rows"
    by (rule getHandler_parts)
  let ?all = "q1 @ q2 @ q3 @ q4 @ q5"
  have all: "set ?all = set ?vis"
    using q sk few by (rule handler_queries_first_page)
  have vis_sub: "set ?vis \<subseteq> set (booking_table p)"
    by (auto simp: visible_matching_def Let_def)
  from uids have "inj_on uid (set (booking_table p))"
    by (simp add: distinct_map)
  with all vis_sub have "inj_on uid (set ?all)"
    by (metis inj_on_subset)
  then have plain: "set (fst (getUniqueBookings uid ?all {})) = set ?vis"
    unfolding all [symmetric] by (rule getUniqueBookings_set)
  from ids have inj: "inj_on booking_id (set (booking_table p))"
    by (simp add: distinct_map)
  have "filter (\<lambda>b. booking_id b \<in> booking_id ` set ?vis) (booking_table p)
      = filter (\<lambda>b. b \<in> set ?vis) (booking_table p)"
  proof (rule filter_cong [OF refl])
    fix b assume b: "b \<in> set (booking_table p)"
    show "(booking_id b \<in> booking_id ` set ?vis) = (b \<in> set ?vis)"
    proof
      assume "booking_id b \<in> booking_id ` set ?vis"
      then obtain b' where b': "b' \<in> set ?vis" and "booking_id b = booking_id b'"
        by auto
      with inj b vis_sub have "b = b'"
        by (meson inj_onD subsetD)
      with b' show "b \<in> set ?vis"
        by simp
    next
      assume "b \<in> set ?vis"
      then show "booking_id b \<in> booking_id ` set ?vis"
        by (rule imageI)
    qed
  qed
  also have "\<dots> = ?vis"
    unfolding visible_matching_def Let_def by (rule filter_member_filter)
  finally have "rows = order_rows (bookingListingOrderby (filter_status (filters input))) ?vis"
    unfolding rows plain by simp
  then have "length rows = length ?vis"
    by (simp add: length_order_rows)
  moreover from m have "length (bookings r) = length rows"
    by (metis length_map)
  ultimately show ?thesis
    by simp
qed

lemma beyond_last_page_empty:
  assumes run: "getHandler ps now p u input {} = (Inr r, s')"
    and few: "length (visible_matching now p u input) \<le> skip_of input"
  shows "bookings r = []"
proof -
  from run obtain q1 q2 q3 q4 q5 basic extended rows where
    q: "handler_queries now p u input = Inr (q1, q2, q3, q4, q5, basic, extended)"
    and rows: "rows = order_rows (bookingListingOrderby (filter_status (filters input)))
       (filter (\<lambda>b. booking_id b \<in> booking_id ` set (fst (getUniqueBookings uid (q1 @ q2 @ q3 @ q4 @ q5) {})))
          (booking_table p))"
    and m: "map b_uid (bookings r) = map uid rows"
    by (rule getHandler_parts)
  have "q1 @ q2 @ q3 @ q4 @ q5 = []"
    using q few by (rule handler_queries_beyond)
  then have "fst (getUniqueBookings uid (q1 @ q2 @ q3 @ q4 @ q5) {}) = []"
    by (simp add: getUniqueBookings_eq)
  with rows have "length rows = 0"
    by (simp add: length_order_rows)
  with m have "length (bookings r) = 0"
    by (metis length_map)
  then show ?thesis
    by simp
qed

text \<open>The module-level set across a call of the handler.\<close>

lemma getBookings_set: "snd (getBookings ps p u passed fs ob tk sk {}) = {}"
  unfolding getBookings_unfold by (simp split: sum.splits prod.splits)

lemma getHandler_set: "snd (getHandler ps now p u input {}) = {}"
proof -
  let ?call = "getBookings ps p u (bookingListingFilters now (filter_status (filters input))) (filters input)
       (bookingListingOrderby (filter_status (filters input))) (take_of input) (skip_of input) {}"
  have "snd ?call = {}"
    by (rule getBookings_set)
  then show ?thesis
    unfolding getHandler_unfold by (cases ?call) (auto split: sum.splits)
qed

subsection \<open>The claims about the response\<close>

lemma handler_collapse: "\<not> isl (fst x) \<Longrightarrow> x = (Inr (projr (fst x)), snd x)"
  by (cases x) (auto simp: isl_def)

text \<open>
  C9. In every booking of a response, every seat reference carries the viewer's email:
  the list is the stored list of seat references of that booking, filtered by the
  viewer's email and projected (so the test of the redaction sees the viewer's own seat
  references only).
\<close>

theorem response_seats_are_viewers:
  assumes "getHandler ps now p u input s = (Inr r, s')" and "b \<in> set (bookings r)"
  shows "(\<forall>seat \<in> set (b_seatsReferences b). selected_attendee_email seat = session_user_email u)
    \<and> (\<exists>row \<in> set (booking_table p). booking_id row = b_id b \<and>
          b_seatsReferences b =
            map (\<lambda>s. \<lparr> selected_referenceUid = referenceUid s,
                        selected_attendee_email = attendee_email (seat_attendee s) \<rparr>)
              (filter (\<lambda>s. attendee_email (seat_attendee s) = session_user_email u) (seatsReferences row)))"
proof -
  from assms obtain row where row: "row \<in> set (booking_table p)"
    and e: "enrich ps u (bookingSelect p u row) = Inr b"
    by (rule response_booking_origin)
  have seats: "b_seatsReferences b = select_seatsReferences u (seatsReferences row)"
    and i: "b_id b = booking_id row"
    using enrich_Inr(1,3) [OF e] by (simp_all add: bookingSelect_def)
  from seats have "\<forall>seat \<in> set (b_seatsReferences b). selected_attendee_email seat = session_user_email u"
    by (auto simp: select_seatsReferences_eq)
  moreover from seats row i have "\<exists>row \<in> set (booking_table p). booking_id row = b_id b \<and>
          b_seatsReferences b =
            map (\<lambda>s. \<lparr> selected_referenceUid = referenceUid s,
                        selected_attendee_email = attendee_email (seat_attendee s) \<rparr>)
              (filter (\<lambda>s. attendee_email (seat_attendee s) = session_user_email u) (seatsReferences row))"
    unfolding select_seatsReferences_eq by (intro bexI [of _ row]) simp_all
  ultimately show ?thesis
    by blast
qed

text \<open>
  In scenario C the stored booking has two seat references; the response has the
  viewer's one.
\<close>

theorem response_seats_are_viewers_witness:
  "length (seatsReferences scenario_C_booking) = 2
   \<and> map (\<lambda>b. map selected_attendee_email (b_seatsReferences b))
         (bookings (projr (fst call_C)))
       = [[''viewer@example.com'']]
   \<and> list_all (\<lambda>seat. selected_attendee_email seat = session_user_email viewer)
         (b_seatsReferences (hd (bookings (projr (fst call_C)))))"
proof -
  let ?x = "call_C"
  have "\<not> isl (fst ?x)"
    by code_simp
  then have "?x = (Inr (projr (fst ?x)), snd ?x)"
    by (rule handler_collapse)
  then have run: "getHandler accepting_parsers 50 scenario_C viewer (a_request upcoming None None) initial_set
      = (Inr (projr (fst ?x)), snd ?x)"
    unfolding call_C_def .
  have "bookings (projr (fst ?x)) \<noteq> []"
    by code_simp
  then have mem: "hd (bookings (projr (fst ?x))) \<in> set (bookings (projr (fst ?x)))"
    by (rule hd_in_set)
  from response_seats_are_viewers [OF run mem]
  have "\<forall>seat \<in> set (b_seatsReferences (hd (bookings (projr (fst ?x))))).
          selected_attendee_email seat = session_user_email viewer"
    by blast
  then have "list_all (\<lambda>seat. selected_attendee_email seat = session_user_email viewer)
         (b_seatsReferences (hd (bookings (projr (fst ?x)))))"
    by (simp add: list_all_iff)
  moreover have "length (seatsReferences scenario_C_booking) = 2"
    by code_simp
  moreover have "map (\<lambda>b. map selected_attendee_email (b_seatsReferences b)) (bookings (projr (fst ?x)))
       = [[''viewer@example.com'']]"
    by code_simp
  ultimately show ?thesis
    by blast
qed

text \<open>
  C3, as the code has it. For a booking of the response with at least one seat reference
  and an event type whose \<open>seatsShowAttendees\<close> is false, every returned attendee has the
  viewer's email: the list is the stored attendee list of that booking filtered by the
  viewer's email. So it has at most one entry when at most one stored attendee of the
  booking has the viewer's email.
\<close>

theorem redaction_keeps_viewer_rows:
  assumes "getHandler ps now p u input s = (Inr r, s')" and "b \<in> set (bookings r)"
    and "length (b_seatsReferences b) \<ge> 1"
    and "response_seatsShowAttendees (b_eventType b) = Some False"
  shows "(\<forall>a \<in> set (b_attendees b). attendee_email a = session_user_email u)
    \<and> (\<exists>row \<in> set (booking_table p). booking_id row = b_id b \<and> uid row = b_uid b \<and>
          b_attendees b = filter (\<lambda>a. attendee_email a = session_user_email u) (attendees row) \<and>
          (length (filter (\<lambda>a. attendee_email a = session_user_email u) (attendees row)) \<le> 1
             \<longrightarrow> length (b_attendees b) \<le> 1))"
proof -
  from assms(1,2) obtain row where row: "row \<in> set (booking_table p)"
    and e: "enrich ps u (bookingSelect p u row) = Inr b"
    by (rule response_booking_origin)
  let ?sb = "bookingSelect p u row"
  have seats: "b_seatsReferences ?sb = b_seatsReferences b"
    using enrich_Inr(3) [OF e] by simp
  have flag: "Option.bind (b_eventType ?sb) selected_seatsShowAttendees = Some False"
    using enrich_Inr(5) [OF e] assms(4) by simp
  have att: "b_attendees b = b_attendees (redact_attendees u ?sb)"
    using enrich_Inr(4) [OF e] .
  have i: "b_id b = booking_id row"
    using enrich_Inr(1) [OF e] by (simp add: bookingSelect_def)
  have k: "b_uid b = uid row"
    using enrich_Inr(2) [OF e] by (simp add: bookingSelect_def)
  from flag obtain et where et: "b_eventType ?sb = Some et" and f: "selected_seatsShowAttendees et = Some False"
    by (cases "b_eventType ?sb") auto
  from assms(3) have "length (b_seatsReferences b) \<noteq> 0"
    by (cases "b_seatsReferences b") simp_all
  then have "length (b_seatsReferences ?sb) \<noteq> 0"
    unfolding seats .
  with et f have "b_attendees (redact_attendees u ?sb)
      = filter (\<lambda>a. attendee_email a = session_user_email u) (b_attendees ?sb)"
    by (simp add: redact_attendees_def)
  with att have "b_attendees b = filter (\<lambda>a. attendee_email a = session_user_email u) (attendees row)"
    by (simp add: bookingSelect_def)
  with row i k show ?thesis
    by auto
qed

theorem redaction_keeps_viewer_rows_witness:
  "1 \<le> length (b_seatsReferences (hd (bookings (projr (fst call_C)))))
   \<and> response_seatsShowAttendees (b_eventType (hd (bookings (projr (fst call_C))))) = Some False
   \<and> map attendee_email (attendees scenario_C_booking) = [''viewer@example.com'', ''guest@example.com'']
   \<and> list_all (\<lambda>a. attendee_email a = session_user_email viewer)
         (b_attendees (hd (bookings (projr (fst call_C)))))
   \<and> map attendee_email (b_attendees (hd (bookings (projr (fst call_C)))))
       = [''viewer@example.com'']"
proof -
  let ?x = "call_C"
  let ?b = "hd (bookings (projr (fst ?x)))"
  have "\<not> isl (fst ?x)"
    by code_simp
  then have "?x = (Inr (projr (fst ?x)), snd ?x)"
    by (rule handler_collapse)
  then have run: "getHandler accepting_parsers 50 scenario_C viewer (a_request upcoming None None) initial_set
      = (Inr (projr (fst ?x)), snd ?x)"
    unfolding call_C_def .
  have "bookings (projr (fst ?x)) \<noteq> []"
    by code_simp
  then have mem: "?b \<in> set (bookings (projr (fst ?x)))"
    by (rule hd_in_set)
  have seats: "1 \<le> length (b_seatsReferences ?b)"
    by code_simp
  have flag: "response_seatsShowAttendees (b_eventType ?b) = Some False"
    by code_simp
  from redaction_keeps_viewer_rows [OF run mem seats flag]
  have "\<forall>a \<in> set (b_attendees ?b). attendee_email a = session_user_email viewer"
    by blast
  then have "list_all (\<lambda>a. attendee_email a = session_user_email viewer) (b_attendees ?b)"
    by (simp add: list_all_iff)
  moreover have "map attendee_email (attendees scenario_C_booking) = [''viewer@example.com'', ''guest@example.com'']"
    by code_simp
  moreover have "map attendee_email (b_attendees ?b) = [''viewer@example.com'']"
    by code_simp
  ultimately show ?thesis
    using seats flag by blast
qed

text \<open>
  The property as the specification states it (at most one returned attendee) fails on a
  seated booking that has two attendee rows with the viewer's email: both are returned.
\<close>

theorem redaction_at_most_one_counterexample:
  "\<not> isl (fst call_two_rows)
   \<and> \<not> (\<forall>b \<in> set (bookings (projr (fst call_two_rows))).
           1 \<le> length (b_seatsReferences b)
             \<and> response_seatsShowAttendees (b_eventType b) = Some False
           \<longrightarrow> length (b_attendees b) \<le> 1)
   \<and> map (\<lambda>b. map attendee_email (b_attendees b))
         (bookings (projr (fst call_two_rows)))
       = [[''viewer@example.com'', ''viewer@example.com'']]"
  by code_simp

text \<open>
  C5. When the uids of the stored bookings are distinct (the column is unique in the
  store), a booking that two or more of the five visibility queries return is listed
  exactly once, by its uid, in the bookings of the response.
\<close>

theorem visible_twice_listed_once:
  assumes "distinct (map uid (booking_table p))"
    and "getHandler ps now p u input initial_set = (Inr r, s')"
    and "handler_queries now p u input = Inr (q1, q2, q3, q4, q5, basic, extended)"
    and "2 \<le> length (filter (\<lambda>q. b \<in> set q) [q1, q2, q3, q4, q5])"
  shows "length (filter (\<lambda>x. b_uid x = uid b) (bookings r)) = 1"
proof -
  from assms(2) obtain g where
    g: "getBookings ps p u (bookingListingFilters now (filter_status (filters input))) (filters input)
       (bookingListingOrderby (filter_status (filters input))) (take_of input) (skip_of input) {} = (Inr g, s')"
    and bs: "bookings r = result_bookings g"
    unfolding initial_set_def by (rule getHandler_Inr)
  have "length (filter (\<lambda>q. b \<in> set q) [q1, q2, q3, q4, q5]) \<noteq> 0"
    using assms(4) by linarith
  then have "filter (\<lambda>q. b \<in> set q) [q1, q2, q3, q4, q5] \<noteq> []"
    unfolding length_0_conv .
  then have b: "b \<in> set (q1 @ q2 @ q3 @ q4 @ q5)"
    unfolding filter_empty_conv by auto
  from getBookings_once [OF assms(1) g assms(3) [unfolded handler_queries_def] b] bs
  show ?thesis
    by simp
qed

text \<open>
  Scenario C: the booking is returned by the owner query, the attendee query and the
  seat query.
\<close>

theorem visible_twice_listed_once_witness:
  "distinct (map uid (booking_table scenario_C))
   \<and> handler_queries 50 scenario_C viewer (a_request upcoming None None)
       = Inr ([scenario_C_booking], [scenario_C_booking], [], [], [scenario_C_booking], [], [])
   \<and> length (filter (\<lambda>x. b_uid x = uid scenario_C_booking)
         (bookings (projr (fst call_C)))) = 1"
proof -
  let ?x = "call_C"
  have "\<not> isl (fst ?x)"
    by code_simp
  then have "?x = (Inr (projr (fst ?x)), snd ?x)"
    by (rule handler_collapse)
  then have run: "getHandler accepting_parsers 50 scenario_C viewer (a_request upcoming None None) initial_set
      = (Inr (projr (fst ?x)), snd ?x)"
    unfolding call_C_def .
  have d: "distinct (map uid (booking_table scenario_C))"
    by code_simp
  have q: "handler_queries 50 scenario_C viewer (a_request upcoming None None)
       = Inr ([scenario_C_booking], [scenario_C_booking], [], [], [scenario_C_booking], [], [])"
    by code_simp
  have twice: "2 \<le> length (filter (\<lambda>q. scenario_C_booking \<in> set q)
       [[scenario_C_booking], [scenario_C_booking], [], [], [scenario_C_booking]])"
    by simp
  from visible_twice_listed_once [OF d run q twice] d q show ?thesis
    by blast
qed

text \<open>
  C7. Both aggregate queries select exactly the bookings whose \<open>userId\<close> is the viewer's
  id and whose \<open>recurringEventId\<close> is not null, and the summary of the response is
  determined by those bookings alone: two successful calls for the same viewer on stores
  that agree on them return the same \<open>recurringInfo\<close>, whatever else the stores hold and
  whatever the two requests are.
\<close>

theorem recurring_summary_owner_only:
  assumes "getHandler ps now p u input s = (Inr r, s1)"
    and "getHandler ps' now' p' u input' s' = (Inr r', s1')"
    and "filter (\<lambda>b. userId b = Some (session_user_id u) \<and> recurringEventId b \<noteq> None) (booking_table p)
       = filter (\<lambda>b. userId b = Some (session_user_id u) \<and> recurringEventId b \<noteq> None) (booking_table p')"
  shows "recurringInfo_of r = recurringInfo_of r'
    \<and> matches p (where_recurringInfo u) b =
        (userId b = Some (session_user_id u) \<and> recurringEventId b \<noteq> None)"
proof -
  from assms(1) obtain basic extended where
    b: "groupBy_recurringEventId p recurringInfoBasic (where_recurringInfo u) = Inr basic"
    and e: "groupBy_recurringEventId_status_startTime p recurringInfoExtended (where_recurringInfo u) = Inr extended"
    and r: "recurringInfo_of r = map (summary_of extended) basic"
    by (rule getHandler_recurringInfo)
  from assms(2) obtain basic' extended' where
    b': "groupBy_recurringEventId p' recurringInfoBasic (where_recurringInfo u) = Inr basic'"
    and e': "groupBy_recurringEventId_status_startTime p' recurringInfoExtended (where_recurringInfo u) = Inr extended'"
    and r': "recurringInfo_of r' = map (summary_of extended') basic'"
    by (rule getHandler_recurringInfo)
  have "basic = basic'"
    using assms(3) b b' by (rule groupBy_basic_owner_only)
  moreover have "extended = extended'"
    using assms(3) e e' by (rule groupBy_extended_owner_only)
  ultimately show ?thesis
    using r r' by (simp add: matches_where_recurringInfo)
qed

text \<open>
  Scenario E with and without the occurrence of another owner's series that the viewer
  attends: the occurrence is in the bookings of the response, and the summary is the same.
\<close>

theorem recurring_summary_owner_only_witness:
  "map b_uid (bookings (projr (fst call_E))) = [''e1'', ''e2'', ''e4'']
   \<and> recurringInfo_of (projr (fst call_E))
       = recurringInfo_of (projr (fst call_E_owned))
   \<and> map info_recurringEventId (recurringInfo_of (projr (fst call_E)))
       = [Some ''series'']"
proof -
  let ?x = "call_E"
  let ?y = "call_E_owned"
  have "\<not> isl (fst ?x)"
    by code_simp
  then have "?x = (Inr (projr (fst ?x)), snd ?x)"
    by (rule handler_collapse)
  then have run: "getHandler accepting_parsers 50 scenario_E viewer (a_request upcoming None None) initial_set
      = (Inr (projr (fst ?x)), snd ?x)"
    unfolding call_E_def .
  have "\<not> isl (fst ?y)"
    by code_simp
  then have "?y = (Inr (projr (fst ?y)), snd ?y)"
    by (rule handler_collapse)
  then have run': "getHandler accepting_parsers 50 scenario_E_owned viewer (a_request upcoming None None) initial_set
      = (Inr (projr (fst ?y)), snd ?y)"
    unfolding call_E_owned_def .
  have same: "filter (\<lambda>b. userId b = Some (session_user_id viewer) \<and> recurringEventId b \<noteq> None)
                (booking_table scenario_E)
            = filter (\<lambda>b. userId b = Some (session_user_id viewer) \<and> recurringEventId b \<noteq> None)
                (booking_table scenario_E_owned)"
    by code_simp
  from recurring_summary_owner_only [OF run run' same]
  have "recurringInfo_of (projr (fst ?x)) = recurringInfo_of (projr (fst ?y))"
    by blast
  moreover have "map b_uid (bookings (projr (fst ?x))) = [''e1'', ''e2'', ''e4'']"
    by code_simp
  moreover have "map info_recurringEventId (recurringInfo_of (projr (fst ?x))) = [Some ''series'']"
    by code_simp
  ultimately show ?thesis
    by blast
qed

text \<open>
  C6. The combination never throws and gives, for every group of the basic aggregate
  query and in their order, the summary of the specification: the count and the minimum
  start time of the group, and a bucket for each of the five statuses (also when empty)
  with the start times of the extended rows of that series and status, in the order of
  those rows. This is the \<open>recurringInfo\<close> of every response. For a series with the rows
  accepted at \<open>t1\<close>, accepted at \<open>t2\<close> and cancelled at \<open>t3\<close> it is count 3, first date
  \<open>t1\<close>, accepted \<open>[t1, t2]\<close>, cancelled \<open>[t3]\<close>, and nothing in the other buckets.
\<close>

theorem recurring_summary_buckets:
  "recurringInfo basic extended = Inr (map (summary_of extended) basic)
   \<and> map fst (info_bookings (summary_of extended info))
       = [ACCEPTED, CANCELLED, REJECTED, PENDING, AWAITING_HOST]
   \<and> (getHandler ps now p u input s = (Inr r, s') \<longrightarrow>
        (\<exists>basic' extended'.
           groupBy_recurringEventId p recurringInfoBasic (where_recurringInfo u) = Inr basic'
           \<and> groupBy_recurringEventId_status_startTime p recurringInfoExtended (where_recurringInfo u)
               = Inr extended'
           \<and> recurringInfo_of r = map (summary_of extended') basic'))
   \<and> recurringInfo
        [\<lparr> basic_recurringEventId = Some series, basic_min_startTime = Some t1,
            basic_count_recurringEventId = 3 \<rparr>]
        [\<lparr> ext_recurringEventId = Some series, ext_status = ACCEPTED, ext_startTime = t1,
            ext_min_startTime = Some t1 \<rparr>,
         \<lparr> ext_recurringEventId = Some series, ext_status = ACCEPTED, ext_startTime = t2,
            ext_min_startTime = Some t2 \<rparr>,
         \<lparr> ext_recurringEventId = Some series, ext_status = CANCELLED, ext_startTime = t3,
            ext_min_startTime = Some t3 \<rparr>]
       = Inr [\<lparr> info_recurringEventId = Some series, info_count = 3, info_firstDate = Some t1,
                info_bookings = [(ACCEPTED, [t1, t2]), (CANCELLED, [t3]), (REJECTED, []),
                                 (PENDING, []), (AWAITING_HOST, [])] \<rparr>]"
proof -
  have handler: "getHandler ps now p u input s = (Inr r, s') \<longrightarrow>
        (\<exists>basic' extended'.
           groupBy_recurringEventId p recurringInfoBasic (where_recurringInfo u) = Inr basic'
           \<and> groupBy_recurringEventId_status_startTime p recurringInfoExtended (where_recurringInfo u)
               = Inr extended'
           \<and> recurringInfo_of r = map (summary_of extended') basic')"
  proof
    assume "getHandler ps now p u input s = (Inr r, s')"
    then obtain basic' extended' where
      "groupBy_recurringEventId p recurringInfoBasic (where_recurringInfo u) = Inr basic'"
      "groupBy_recurringEventId_status_startTime p recurringInfoExtended (where_recurringInfo u) = Inr extended'"
      "recurringInfo_of r = map (summary_of extended') basic'"
      by (rule getHandler_recurringInfo)
    then show "\<exists>basic' extended'.
           groupBy_recurringEventId p recurringInfoBasic (where_recurringInfo u) = Inr basic'
           \<and> groupBy_recurringEventId_status_startTime p recurringInfoExtended (where_recurringInfo u)
               = Inr extended'
           \<and> recurringInfo_of r = map (summary_of extended') basic'"
      by blast
  qed
  have keys: "map fst (info_bookings (summary_of extended info))
       = [ACCEPTED, CANCELLED, REJECTED, PENDING, AWAITING_HOST]"
    by (simp add: summary_of_def)
  show ?thesis
    unfolding recurringInfo_eq using handler keys by (simp add: summary_of_def)
qed

text \<open>
  Scenario E, through the handler: the two aggregate queries on the store, and the
  summary of the response.
\<close>

theorem recurring_summary_buckets_witness:
  "groupBy_recurringEventId scenario_E recurringInfoBasic (where_recurringInfo viewer)
     = Inr [\<lparr> basic_recurringEventId = Some ''series'', basic_min_startTime = Some 100,
               basic_count_recurringEventId = 3 \<rparr>]
   \<and> recurringInfo_of (projr (fst call_E))
     = [\<lparr> info_recurringEventId = Some ''series'', info_count = 3, info_firstDate = Some 100,
          info_bookings = [(ACCEPTED, [100, 200]), (CANCELLED, [300]), (REJECTED, []),
                           (PENDING, []), (AWAITING_HOST, [])] \<rparr>]"
proof -
  let ?x = "call_E"
  have "\<not> isl (fst ?x)"
    by code_simp
  then have "?x = (Inr (projr (fst ?x)), snd ?x)"
    by (rule handler_collapse)
  then have run: "getHandler accepting_parsers 50 scenario_E viewer (a_request upcoming None None) initial_set
      = (Inr (projr (fst ?x)), snd ?x)"
    unfolding call_E_def .
  have b: "groupBy_recurringEventId scenario_E recurringInfoBasic (where_recurringInfo viewer)
     = Inr [\<lparr> basic_recurringEventId = Some ''series'', basic_min_startTime = Some 100,
               basic_count_recurringEventId = 3 \<rparr>]"
    by code_simp
  have e: "groupBy_recurringEventId_status_startTime scenario_E recurringInfoExtended (where_recurringInfo viewer)
     = Inr [\<lparr> ext_recurringEventId = Some ''series'', ext_status = ACCEPTED, ext_startTime = 100,
               ext_min_startTime = Some 100 \<rparr>,
            \<lparr> ext_recurringEventId = Some ''series'', ext_status = ACCEPTED, ext_startTime = 200,
               ext_min_startTime = Some 200 \<rparr>,
            \<lparr> ext_recurringEventId = Some ''series'', ext_status = CANCELLED, ext_startTime = 300,
               ext_min_startTime = Some 300 \<rparr>]"
    by code_simp
  from recurring_summary_buckets [of _ _ _ accepting_parsers 50 scenario_E viewer
      "a_request upcoming None None" initial_set "projr (fst ?x)" "snd ?x"] run
  obtain basic' extended' where
    "groupBy_recurringEventId scenario_E recurringInfoBasic (where_recurringInfo viewer) = Inr basic'"
    "groupBy_recurringEventId_status_startTime scenario_E recurringInfoExtended (where_recurringInfo viewer)
       = Inr extended'"
    "recurringInfo_of (projr (fst ?x)) = map (summary_of extended') basic'"
    by blast
  with b e have "recurringInfo_of (projr (fst ?x))
     = [\<lparr> info_recurringEventId = Some ''series'', info_count = 3, info_firstDate = Some 100,
          info_bookings = [(ACCEPTED, [100, 200]), (CANCELLED, [300]), (REJECTED, []),
                           (PENDING, []), (AWAITING_HOST, [])] \<rparr>]"
    by (simp add: summary_of_def)
  with b show ?thesis
    by blast
qed




text \<open>
  C2. With \<open>take\<close> the page size (the limit, 10 when absent) and \<open>skip\<close> the offset (the
  cursor, 0 when absent), the cursor of a response is \<open>skip\<close> plus the number of its
  bookings when that number exceeds \<open>take\<close>, and null otherwise. The bookings are not cut
  down to \<open>take\<close>: on a store with unique ids and uids where three bookings match the
  request, limit 2 and cursor 0 give three bookings and the cursor 3, and the call with
  cursor 3 gives no booking and the cursor null.
\<close>

theorem next_cursor_unclamped:
  "(getHandler ps now p u input s = (Inr r, s') \<longrightarrow>
      nextCursor r = (if take_of input < length (bookings r)
                      then Some (skip_of input + length (bookings r)) else None)
      \<and> (nextCursor r = None \<longleftrightarrow> length (bookings r) \<le> take_of input))
   \<and> take_of input = (case limit input of None \<Rightarrow> 10 | Some l \<Rightarrow> l)
   \<and> skip_of input = (case cursor input of None \<Rightarrow> 0 | Some c \<Rightarrow> c)
   \<and> (distinct (map booking_id (booking_table p)) \<and> distinct (map uid (booking_table p))
        \<and> limit input = Some 2 \<and> cursor input = Some 0
        \<and> length (visible_matching now p u input) = 3
        \<and> getHandler ps now p u input initial_set = (Inr r1, s1)
        \<and> length (visible_matching now' p u input) = 3
        \<and> getHandler ps' now' p u (input \<lparr> cursor := Some 3 \<rparr>) initial_set = (Inr r2, s2)
      \<longrightarrow> length (bookings r1) = 3 \<and> nextCursor r1 = Some 3
          \<and> bookings r2 = [] \<and> nextCursor r2 = None)"
proof -
  have cursor_eq: "getHandler ps now p u input s = (Inr r, s') \<longrightarrow>
      nextCursor r = (if take_of input < length (bookings r)
                      then Some (skip_of input + length (bookings r)) else None)
      \<and> (nextCursor r = None \<longleftrightarrow> length (bookings r) \<le> take_of input)"
  proof
    assume "getHandler ps now p u input s = (Inr r, s')"
    then have "nextCursor r = (if take_of input < length (bookings r)
                      then Some (skip_of input + length (bookings r)) else None)"
      by (rule getHandler_parts)
    then show "nextCursor r = (if take_of input < length (bookings r)
                      then Some (skip_of input + length (bookings r)) else None)
      \<and> (nextCursor r = None \<longleftrightarrow> length (bookings r) \<le> take_of input)"
      by auto
  qed
  have scenario: "distinct (map booking_id (booking_table p)) \<and> distinct (map uid (booking_table p))
        \<and> limit input = Some 2 \<and> cursor input = Some 0
        \<and> length (visible_matching now p u input) = 3
        \<and> getHandler ps now p u input initial_set = (Inr r1, s1)
        \<and> length (visible_matching now' p u input) = 3
        \<and> getHandler ps' now' p u (input \<lparr> cursor := Some 3 \<rparr>) initial_set = (Inr r2, s2)
      \<longrightarrow> length (bookings r1) = 3 \<and> nextCursor r1 = Some 3
          \<and> bookings r2 = [] \<and> nextCursor r2 = None"
  proof
    assume a: "distinct (map booking_id (booking_table p)) \<and> distinct (map uid (booking_table p))
        \<and> limit input = Some 2 \<and> cursor input = Some 0
        \<and> length (visible_matching now p u input) = 3
        \<and> getHandler ps now p u input initial_set = (Inr r1, s1)
        \<and> length (visible_matching now' p u input) = 3
        \<and> getHandler ps' now' p u (input \<lparr> cursor := Some 3 \<rparr>) initial_set = (Inr r2, s2)"
    let ?next = "input \<lparr> cursor := Some 3 \<rparr>"
    from a have tk: "take_of input = 2" and sk: "skip_of input = 0"
      by (simp_all add: take_of_def skip_of_def)
    have tk': "take_of ?next = 2" and sk': "skip_of ?next = 3"
      using a by (simp_all add: take_of_def skip_of_def)
    from a have run1: "getHandler ps now p u input {} = (Inr r1, s1)"
      and run2: "getHandler ps' now' p u ?next {} = (Inr r2, s2)"
      by (simp_all add: initial_set_def)
    from a have few: "length (visible_matching now p u input) \<le> take_of input + 1"
      by (simp add: tk)
    from a have ids: "distinct (map booking_id (booking_table p))" and uids: "distinct (map uid (booking_table p))"
      by simp_all
    from first_page_whole [OF ids uids run1 sk few] a have len1: "length (bookings r1) = 3"
      by simp
    from run1 have "nextCursor r1 = (if take_of input < length (bookings r1)
                      then Some (skip_of input + length (bookings r1)) else None)"
      by (rule getHandler_parts)
    with len1 tk sk have c1: "nextCursor r1 = Some 3"
      by simp
    have "visible_matching now' p u ?next = visible_matching now' p u input"
      by (simp add: visible_matching_def)
    with a have "length (visible_matching now' p u ?next) \<le> skip_of ?next"
      by (simp add: sk')
    with run2 have empty: "bookings r2 = []"
      by (rule beyond_last_page_empty)
    from run2 have "nextCursor r2 = (if take_of ?next < length (bookings r2)
                      then Some (skip_of ?next + length (bookings r2)) else None)"
      by (rule getHandler_parts)
    with empty have c2: "nextCursor r2 = None"
      by simp
    from len1 c1 empty c2
    show "length (bookings r1) = 3 \<and> nextCursor r1 = Some 3 \<and> bookings r2 = [] \<and> nextCursor r2 = None"
      by blast
  qed
  have defaults: "take_of input = (case limit input of None \<Rightarrow> 10 | Some l \<Rightarrow> l)"
    "skip_of input = (case cursor input of None \<Rightarrow> 0 | Some c \<Rightarrow> c)"
    by (simp_all add: take_of_def skip_of_def)
  from cursor_eq defaults scenario show ?thesis
    by (intro conjI)
qed

text \<open>Scenario D on the store with three upcoming bookings of the viewer.\<close>

theorem next_cursor_unclamped_witness:
  "length (visible_matching 50 scenario_D viewer (a_request upcoming (Some 2) (Some 0))) = 3
   \<and> length (bookings (projr (fst call_D_first))) = 3
   \<and> nextCursor (projr (fst call_D_first)) = Some 3
   \<and> bookings (projr (fst call_D_second)) = []
   \<and> nextCursor (projr (fst call_D_second)) = None"
proof -
  let ?input = "a_request upcoming (Some 2) (Some 0)"
  have "\<not> isl (fst call_D_first)"
    by code_simp
  then have "call_D_first = (Inr (projr (fst call_D_first)), snd call_D_first)"
    by (rule handler_collapse)
  then have run1: "getHandler accepting_parsers 50 scenario_D viewer ?input initial_set
      = (Inr (projr (fst call_D_first)), snd call_D_first)"
    unfolding call_D_first_def .
  have next_input: "?input \<lparr> cursor := Some 3 \<rparr> = a_request upcoming (Some 2) (Some 3)"
    by (simp add: a_request_def)
  have "\<not> isl (fst call_D_second)"
    by code_simp
  then have "call_D_second = (Inr (projr (fst call_D_second)), snd call_D_second)"
    by (rule handler_collapse)
  then have run2: "getHandler accepting_parsers 50 scenario_D viewer (?input \<lparr> cursor := Some 3 \<rparr>) initial_set
      = (Inr (projr (fst call_D_second)), snd call_D_second)"
    unfolding call_D_second_def next_input .
  have ids: "distinct (map booking_id (booking_table scenario_D))"
    by code_simp
  have uids: "distinct (map uid (booking_table scenario_D))"
    by code_simp
  have lim: "limit ?input = Some 2" and cur: "cursor ?input = Some 0"
    by (simp_all add: a_request_def)
  have three: "length (visible_matching 50 scenario_D viewer ?input) = 3"
    by code_simp
  from next_cursor_unclamped [of accepting_parsers 50 scenario_D viewer ?input _ _ _
      "projr (fst call_D_first)" "snd call_D_first" 50 accepting_parsers
      "projr (fst call_D_second)" "snd call_D_second"]
    ids uids lim cur three run1 run2
  have "length (bookings (projr (fst call_D_first))) = 3 \<and> nextCursor (projr (fst call_D_first)) = Some 3
          \<and> bookings (projr (fst call_D_second)) = [] \<and> nextCursor (projr (fst call_D_second)) = None"
    by blast
  with three show ?thesis
    by blast
qed

text \<open>
  C10. The set is module-level, but every call clears it before it returns: whatever the
  set holds on entry, it is empty on exit; so in any sequence of calls that starts from
  the module's initial set and runs one call after the other, the set is empty on entry
  to and on exit from every call, and two calls in a row on the same list return the
  same list. The handler, whose only use of the set is this function, also leaves the
  initial set as it found it, whether it answers or fails.
\<close>

theorem dedup_set_cleared_deterministic:
  "snd (getUniqueBookings uid_of arr s) = {}
   \<and> (\<forall>c \<in> set (sequential_calls uid_of arrs initial_set). fst c = {} \<and> snd (snd c) = {})
   \<and> (\<exists>unique. sequential_calls uid_of [arr, arr] initial_set = [({}, unique, {}), ({}, unique, {})])
   \<and> snd (getHandler ps now p u input initial_set) = initial_set"
proof (intro conjI)
  show "snd (getUniqueBookings uid_of arr s) = {}"
    by (simp add: getUniqueBookings_eq)
  show "\<forall>c \<in> set (sequential_calls uid_of arrs initial_set). fst c = {} \<and> snd (snd c) = {}"
    unfolding initial_set_def using sequential_calls_empty by blast
  show "\<exists>unique. sequential_calls uid_of [arr, arr] initial_set = [({}, unique, {}), ({}, unique, {})]"
    by (simp add: initial_set_def getUniqueBookings_eq)
  show "snd (getHandler ps now p u input initial_set) = initial_set"
    unfolding initial_set_def by (rule getHandler_set)
qed

theorem dedup_set_cleared_deterministic_witness:
  "snd (getUniqueBookings id [''a'', ''b'', ''a''] {''stale''}) = {}
   \<and> sequential_calls id [[''a'', ''b'', ''a''], [''a'', ''b'', ''a'']] initial_set
       = [({}, [''a'', ''b''], {}), ({}, [''a'', ''b''], {})]
   \<and> snd call_C = {}"
proof -
  let ?arr = "[''a'', ''b'', ''a'']"
  from dedup_set_cleared_deterministic [of id ?arr "{''stale''}" "[?arr, ?arr]"
      accepting_parsers 50 scenario_C viewer "a_request upcoming None None"]
  have "snd (getUniqueBookings id ?arr {''stale''}) = {}"
    and "\<exists>unique. sequential_calls id [?arr, ?arr] initial_set = [({}, unique, {}), ({}, unique, {})]"
    and "snd call_C = {}"
    unfolding call_C_def initial_set_def by blast+
  moreover have "fst (getUniqueBookings id ?arr initial_set) = [''a'', ''b'']"
    by (simp add: getUniqueBookings_def initial_set_def unique_callback_def)
  ultimately show ?thesis
    by (auto simp: initial_set_def getUniqueBookings_eq)
qed

end
